theory Spec2Isabelle
  imports Main "HOL-Library.AList"
begin

section \<open>JSON values and the runtime operations the programs call\<close>

text \<open>
  The three programs exchange JSON. A value is modelled by the datatype below. Strings are
  byte strings (the UTF-8 encoding of the text). A number is kept as the decimal text that
  denotes it: binary64 rounding is outside the model, so two texts of one number (\<open>1\<close> and
  \<open>1.0\<close>) are different values here. An object is an association list in creation order;
  setting a property that exists keeps its position (\<open>AList.update\<close>). The runtime lists
  names that are array indices before the others; the model does not reorder them.
  \<open>undefined\<close> is \<open>None\<close> of \<open>json option\<close>.
\<close>

datatype json =
    JNull
  | JBool bool
  | JNum string
  | JStr string
  | JArr "json list"
  | JObj "(string \<times> json) list"

datatype js_error =
    Error string  \<comment> \<open>\<open>new Error(message)\<close> thrown by the program\<close>
  | TypeError     \<comment> \<open>raised by the runtime; its message is the runtime's own\<close>
  | SyntaxError   \<comment> \<open>raised by the runtime's JSON reader\<close>

subsection \<open>Truthiness, property access and string conversion\<close>

text \<open>
  \<open>if (x)\<close>: \<open>undefined\<close>, \<open>null\<close>, \<open>false\<close>, zero and the empty string are falsy. A number
  text denotes zero when its mantissa has no digit other than 0; a text so small that the
  runtime rounds it to zero (\<open>1e-400\<close>) counts as non-zero here.
\<close>

fun truthy :: "json option \<Rightarrow> bool" where
  "truthy None = False"
| "truthy (Some JNull) = False"
| "truthy (Some (JBool b)) = b"
| "truthy (Some (JNum n)) =
     list_ex (\<lambda>c. c \<in> set ''123456789'') (takeWhile (\<lambda>c. c \<noteq> CHR ''e'' \<and> c \<noteq> CHR ''E'') n)"
| "truthy (Some (JStr s)) = (s \<noteq> [])"
| "truthy (Some (JArr xs)) = True"
| "truthy (Some (JObj kvs)) = True"

definition digit_val :: "char \<Rightarrow> nat option" where
  "digit_val c = map_of (zip ''0123456789'' [0 ..< 10]) c"

fun show_nat :: "nat \<Rightarrow> string" where
  "show_nat n =
     (if n < 10 then [''0123456789'' ! n]
      else show_nat (n div 10) @ [''0123456789'' ! (n mod 10)])"

declare show_nat.simps [simp del]

definition read_step :: "nat option \<Rightarrow> char \<Rightarrow> nat option" where
  "read_step acc c =
     (case (acc, digit_val c) of (Some a, Some d) \<Rightarrow> Some (10 * a + d) | _ \<Rightarrow> None)"

definition read_nat :: "string \<Rightarrow> nat option" where
  "read_nat s = (if s = [] then None else foldl read_step (Some 0) s)"

definition array_index :: "string \<Rightarrow> nat option" where
  \<comment> \<open>a property name that is the canonical text of an array index\<close>
  "array_index k = (case read_nat k of Some i \<Rightarrow> if show_nat i = k then Some i else None | None \<Rightarrow> None)"

text \<open>
  \<open>v.k\<close> and \<open>v[k]\<close>: reading a property of \<open>undefined\<close> or \<open>null\<close> raises TypeError, an
  object gives its own property, an array or a string its element at an index name, any
  other read gives \<open>undefined\<close>. (The programs read the names \<open>choices\<close>, \<open>0\<close>, \<open>message\<close>,
  \<open>content\<close>, \<open>error\<close> and the request fields, none of which is inherited from a prototype.)
\<close>

fun get_prop :: "json option \<Rightarrow> string \<Rightarrow> js_error + json option" where
  "get_prop None k = Inl TypeError"
| "get_prop (Some JNull) k = Inl TypeError"
| "get_prop (Some (JObj kvs)) k = Inr (map_of kvs k)"
| "get_prop (Some (JArr xs)) k =
     Inr (case array_index k of Some i \<Rightarrow> if i < length xs then Some (xs ! i) else None | None \<Rightarrow> None)"
| "get_prop (Some (JStr s)) k =
     Inr (case array_index k of Some i \<Rightarrow> if i < length s then Some (JStr [s ! i]) else None | None \<Rightarrow> None)"
| "get_prop (Some (JBool b)) k = Inr None"
| "get_prop (Some (JNum n)) k = Inr None"

fun join :: "string \<Rightarrow> string list \<Rightarrow> string" where
  "join sep [] = []"
| "join sep [x] = x"
| "join sep (x # y # ys) = x @ sep @ join sep (y # ys)"

text \<open>
  String conversion of a value read from JSON. An object converts through the inherited
  \<open>toString\<close>; an object that has an own property of that name makes the runtime raise
  TypeError instead, a case left out here.
\<close>

fun ToString :: "json \<Rightarrow> string" where
  "ToString JNull = ''null''"
| "ToString (JBool b) = (if b then ''true'' else ''false'')"
| "ToString (JNum n) = n"
| "ToString (JStr s) = s"
| "ToString (JArr xs) = join '','' (map (\<lambda>x. if x = JNull then [] else ToString x) xs)"
| "ToString (JObj kvs) = ''[object Object]''"

definition template_value :: "json option \<Rightarrow> string" where
  \<comment> \<open>\<open>${x}\<close> inside a template literal\<close>
  "template_value x = (case x of None \<Rightarrow> ''undefined'' | Some v \<Rightarrow> ToString v)"

text \<open>
  Object spread \<open>{...a, ...b}\<close> copies the own enumerable properties of \<open>b\<close> over those
  of \<open>a\<close>: an object has its members, an array its elements under their indices, a
  string its characters, any other value nothing.
\<close>

fun own_props :: "json option \<Rightarrow> (string \<times> json) list" where
  "own_props (Some (JObj kvs)) = kvs"
| "own_props (Some (JArr xs)) = zip (map show_nat [0 ..< length xs]) xs"
| "own_props (Some (JStr s)) = zip (map show_nat [0 ..< length s]) (map (\<lambda>c. JStr [c]) s)"
| "own_props _ = []"

definition spread :: "(string \<times> json) list \<Rightarrow> (string \<times> json) list \<Rightarrow> (string \<times> json) list" where
  "spread target source = foldl (\<lambda>acc kv. AList.update (fst kv) (snd kv) acc) target source"

subsection \<open>\<open>JSON.stringify\<close>\<close>

definition hex_digit :: "nat \<Rightarrow> char" where
  "hex_digit d = ''0123456789abcdef'' ! d"

definition quote_char :: "char \<Rightarrow> string" where
  "quote_char c =
     (if c = CHR 0x22 then [CHR 0x5C, CHR 0x22]
      else if c = CHR 0x5C then [CHR 0x5C, CHR 0x5C]
      else if c = CHR 0x08 then [CHR 0x5C, CHR ''b'']
      else if c = CHR 0x0C then [CHR 0x5C, CHR ''f'']
      else if c = CHR 0x0A then [CHR 0x5C, CHR ''n'']
      else if c = CHR 0x0D then [CHR 0x5C, CHR ''r'']
      else if c = CHR 0x09 then [CHR 0x5C, CHR ''t'']
      else if (of_char c :: nat) < 32
        then [CHR 0x5C, CHR ''u'', CHR ''0'', CHR ''0'',
              hex_digit (of_char c div 16), hex_digit (of_char c mod 16)]
      else [c])"

definition quote :: "string \<Rightarrow> string" where
  "quote s = [CHR 0x22] @ concat (map quote_char s) @ [CHR 0x22]"

fun JSON_stringify :: "json \<Rightarrow> string"
  and stringify_elements :: "json list \<Rightarrow> string"
  and stringify_members :: "(string \<times> json) list \<Rightarrow> string"
where
  "JSON_stringify JNull = ''null''"
| "JSON_stringify (JBool b) = (if b then ''true'' else ''false'')"
| "JSON_stringify (JNum n) = n"
| "JSON_stringify (JStr s) = quote s"
| "JSON_stringify (JArr xs) = ''['' @ stringify_elements xs @ '']''"
| "JSON_stringify (JObj kvs) = ''{'' @ stringify_members kvs @ ''}''"
| "stringify_elements [] = []"
| "stringify_elements [x] = JSON_stringify x"
| "stringify_elements (x # y # ys) = JSON_stringify x @ '','' @ stringify_elements (y # ys)"
| "stringify_members [] = []"
| "stringify_members [(k, v)] = quote k @ '':'' @ JSON_stringify v"
| "stringify_members ((k, v) # m # ms) =
     quote k @ '':'' @ JSON_stringify v @ '','' @ stringify_members (m # ms)"

subsection \<open>\<open>JSON.parse\<close>\<close>

definition is_ws :: "char \<Rightarrow> bool" where
  "is_ws c = (c = CHR '' '' \<or> c = CHR 0x09 \<or> c = CHR 0x0A \<or> c = CHR 0x0D)"

definition skip_ws :: "string \<Rightarrow> string" where
  "skip_ws s = dropWhile is_ws s"

definition is_digit :: "char \<Rightarrow> bool" where
  "is_digit c = (c \<in> set ''0123456789'')"

definition is_number_char :: "char \<Rightarrow> bool" where
  "is_number_char c = (is_digit c \<or> c \<in> set ''+-.eE'')"

definition valid_exponent :: "string \<Rightarrow> bool" where
  "valid_exponent r =
     (case r of
        [] \<Rightarrow> True
      | e # t \<Rightarrow> (e = CHR ''e'' \<or> e = CHR ''E'') \<and>
          (let ds = (case t of [] \<Rightarrow> [] | s # t' \<Rightarrow> if s = CHR ''+'' \<or> s = CHR ''-'' then t' else t)
           in ds \<noteq> [] \<and> list_all is_digit ds))"

definition valid_fraction :: "string \<Rightarrow> bool" where
  "valid_fraction r =
     (case r of
        [] \<Rightarrow> True
      | d # t \<Rightarrow> if d = CHR ''.'' then takeWhile is_digit t \<noteq> [] \<and> valid_exponent (dropWhile is_digit t)
                 else valid_exponent r)"

definition valid_number :: "string \<Rightarrow> bool" where
  \<comment> \<open>the JSON number grammar: \<open>-? (0 | [1-9][0-9]*) (. [0-9]+)? ([eE] [+-]? [0-9]+)?\<close>\<close>
  "valid_number s =
     (let u = (case s of [] \<Rightarrow> [] | m # t \<Rightarrow> if m = CHR ''-'' then t else s);
          ip = takeWhile is_digit u
      in ip \<noteq> [] \<and> (ip = ''0'' \<or> hd ip \<noteq> CHR ''0'') \<and> valid_fraction (dropWhile is_digit u))"

definition hex_val :: "char \<Rightarrow> nat option" where
  "hex_val c = map_of (zip ''0123456789abcdefABCDEF'' ([0 ..< 16] @ [10 ..< 16])) c"

definition utf8 :: "nat \<Rightarrow> string option" where
  \<comment> \<open>the bytes of a code unit written \<open>\uXXXX\<close>; a surrogate has no bytes of its own
      and is outside the model\<close>
  "utf8 n =
     (if n < 0x80 then Some [char_of n]
      else if n < 0x800 then Some [char_of (0xC0 + n div 64), char_of (0x80 + n mod 64)]
      else if 0xD800 \<le> n \<and> n < 0xE000 then None
      else Some [char_of (0xE0 + n div 4096), char_of (0x80 + (n div 64) mod 64),
                 char_of (0x80 + n mod 64)])"

definition unescape :: "char \<Rightarrow> char option" where
  "unescape e =
     (if e = CHR 0x22 then Some (CHR 0x22)
      else if e = CHR 0x5C then Some (CHR 0x5C)
      else if e = CHR ''/'' then Some (CHR ''/'')
      else if e = CHR ''b'' then Some (CHR 0x08)
      else if e = CHR ''f'' then Some (CHR 0x0C)
      else if e = CHR ''n'' then Some (CHR 0x0A)
      else if e = CHR ''r'' then Some (CHR 0x0D)
      else if e = CHR ''t'' then Some (CHR 0x09)
      else None)"

definition hex4 :: "char \<Rightarrow> char \<Rightarrow> char \<Rightarrow> char \<Rightarrow> nat option" where
  "hex4 a b c d =
     (case (hex_val a, hex_val b, hex_val c, hex_val d) of
        (Some w, Some x, Some y, Some z) \<Rightarrow> Some (4096 * w + 256 * x + 16 * y + z)
      | _ \<Rightarrow> None)"

text \<open>The characters of a string literal after its opening quote, and the rest of the text.\<close>

fun parse_chars :: "string \<Rightarrow> (string \<times> string) option" where
  "parse_chars [] = None"
| "parse_chars (c # cs) =
     (if c = CHR 0x22 then Some ([], cs)
      else if c = CHR 0x5C then
        (case cs of
           [] \<Rightarrow> None
         | e # cs' \<Rightarrow>
             if e = CHR ''u'' then
               (case cs' of
                  a # b # c' # d # cs'' \<Rightarrow>
                    (case hex4 a b c' d of
                       None \<Rightarrow> None
                     | Some n \<Rightarrow>
                         (case utf8 n of
                            None \<Rightarrow> None
                          | Some bs \<Rightarrow>
                              (case parse_chars cs'' of
                                 None \<Rightarrow> None
                               | Some (s, r) \<Rightarrow> Some (bs @ s, r))))
                | _ \<Rightarrow> None)
             else
               (case unescape e of
                  None \<Rightarrow> None
                | Some ch \<Rightarrow>
                    (case parse_chars cs' of
                       None \<Rightarrow> None
                     | Some (s, r) \<Rightarrow> Some (ch # s, r))))
      else if (of_char c :: nat) < 32 then None
      else (case parse_chars cs of None \<Rightarrow> None | Some (s, r) \<Rightarrow> Some (c # s, r)))"

definition build_object :: "(string \<times> json) list \<Rightarrow> (string \<times> json) list" where
  \<comment> \<open>members in the order read; a repeated name overwrites the earlier value in place\<close>
  "build_object ms = spread [] ms"

text \<open>
  Recursive descent on the text. The first argument bounds the number of nested calls;
  \<open>JSON_parse\<close> starts it at twice the length of the text plus one, which is enough
  for every text (\<open>JSON_parse_any_fuel\<close> below).
\<close>

fun parse_value :: "nat \<Rightarrow> string \<Rightarrow> (json \<times> string) option"
  and parse_elements :: "nat \<Rightarrow> string \<Rightarrow> (json list \<times> string) option"
  and parse_members :: "nat \<Rightarrow> string \<Rightarrow> ((string \<times> json) list \<times> string) option"
where
  "parse_value 0 s = None"
| "parse_value (Suc n) s =
     (case s of
        [] \<Rightarrow> None
      | c # cs \<Rightarrow>
          if c = CHR ''{'' then
            (case skip_ws cs of
               [] \<Rightarrow> None
             | d # r \<Rightarrow>
                 if d = CHR ''}'' then Some (JObj [], r)
                 else (case parse_members n (d # r) of
                         None \<Rightarrow> None
                       | Some (ms, r') \<Rightarrow> Some (JObj (build_object ms), r')))
          else if c = CHR ''['' then
            (case skip_ws cs of
               [] \<Rightarrow> None
             | d # r \<Rightarrow>
                 if d = CHR '']'' then Some (JArr [], r)
                 else (case parse_elements n (d # r) of
                         None \<Rightarrow> None
                       | Some (vs, r') \<Rightarrow> Some (JArr vs, r')))
          else if c = CHR 0x22 then
            (case parse_chars cs of None \<Rightarrow> None | Some (str, r) \<Rightarrow> Some (JStr str, r))
          else if take 4 s = ''null'' then Some (JNull, drop 4 s)
          else if take 4 s = ''true'' then Some (JBool True, drop 4 s)
          else if take 5 s = ''false'' then Some (JBool False, drop 5 s)
          else if valid_number (takeWhile is_number_char s)
            then Some (JNum (takeWhile is_number_char s), dropWhile is_number_char s)
          else None)"
| "parse_elements 0 s = None"
| "parse_elements (Suc n) s =
     (case parse_value n (skip_ws s) of
        None \<Rightarrow> None
      | Some (v, r) \<Rightarrow>
          (case skip_ws r of
             [] \<Rightarrow> None
           | d # r' \<Rightarrow>
               if d = CHR '','' then
                 (case parse_elements n r' of
                    None \<Rightarrow> None
                  | Some (vs, r'') \<Rightarrow> Some (v # vs, r''))
               else if d = CHR '']'' then Some ([v], r')
               else None))"
| "parse_members 0 s = None"
| "parse_members (Suc n) s =
     (case skip_ws s of
        [] \<Rightarrow> None
      | q # t \<Rightarrow>
          if q \<noteq> CHR 0x22 then None
          else
            (case parse_chars t of
               None \<Rightarrow> None
             | Some (k, r) \<Rightarrow>
                 (case skip_ws r of
                    [] \<Rightarrow> None
                  | col # r1 \<Rightarrow>
                      if col \<noteq> CHR '':'' then None
                      else
                        (case parse_value n (skip_ws r1) of
                           None \<Rightarrow> None
                         | Some (v, r2) \<Rightarrow>
                             (case skip_ws r2 of
                                [] \<Rightarrow> None
                              | d # r3 \<Rightarrow>
                                  if d = CHR '','' then
                                    (case parse_members n r3 of
                                       None \<Rightarrow> None
                                     | Some (ms, r4) \<Rightarrow> Some ((k, v) # ms, r4))
                                  else if d = CHR ''}'' then Some ([(k, v)], r3)
                                  else None)))))"

definition JSON_parse :: "string \<Rightarrow> json option" where
  \<comment> \<open>\<open>None\<close> stands for the SyntaxError that \<open>JSON.parse\<close> throws\<close>
  "JSON_parse s =
     (case parse_value (2 * length s + 1) (skip_ws s) of
        None \<Rightarrow> None
      | Some (v, r) \<Rightarrow> if skip_ws r = [] then Some v else None)"

text \<open>
  The values that \<open>JSON.stringify\<close> prints and \<open>JSON.parse\<close> reads back: every number is
  a text of the JSON number grammar, and the names of an object are distinct, as they are
  in any object of the runtime.
\<close>

fun wf_json :: "json \<Rightarrow> bool"
  and wf_elements :: "json list \<Rightarrow> bool"
  and wf_members :: "(string \<times> json) list \<Rightarrow> bool"
where
  "wf_json JNull = True"
| "wf_json (JBool b) = True"
| "wf_json (JNum n) = valid_number n"
| "wf_json (JStr s) = True"
| "wf_json (JArr xs) = wf_elements xs"
| "wf_json (JObj kvs) = (distinct (map fst kvs) \<and> wf_members kvs)"
| "wf_elements [] = True"
| "wf_elements (x # xs) = (wf_json x \<and> wf_elements xs)"
| "wf_members [] = True"
| "wf_members ((k, v) # ms) = (wf_json v \<and> wf_members ms)"

section \<open>The forwarding function \<open>predict-yield\<close>\<close>

text \<open>
  The handler passed to \<open>serve\<close>. Its inputs are the request (method and what
  \<open>await req.json()\<close> gives), the value of \<open>Deno.env.get("LOVABLE_API_KEY")\<close> and the
  gateway, a function from the \<open>fetch\<close> call to what \<open>fetch\<close> gives back. Its result is the
  reply and the list of \<open>fetch\<close> calls it issued. Reply headers and console output are left
  out.
\<close>

record http_request =
  req_method :: string
  req_json :: "js_error + json"  \<comment> \<open>\<open>await req.json()\<close>: the decoded body, or the error it rejects with\<close>

record fetch_call =
  url :: string
  fetch_method :: string
  authorization :: string
  content_type :: string
  payload :: json  \<comment> \<open>the object handed to \<open>JSON.stringify\<close> for the body\<close>

record gateway_response =
  gw_status :: nat
  gw_text :: "js_error + string"  \<comment> \<open>\<open>await response.text()\<close>, or the error it rejects with\<close>
  gw_json :: "json option"  \<comment> \<open>\<open>await response.json()\<close>; \<open>None\<close> when it rejects\<close>

type_synonym gateway = "fetch_call \<Rightarrow> js_error + gateway_response"

datatype reply_body =
    No_body                \<comment> \<open>\<open>new Response(null, ...)\<close>\<close>
  | Error_reply js_error   \<comment> \<open>\<open>JSON.stringify({ error: m })\<close>, \<open>m\<close> the message of the error\<close>
  | Stringified json       \<comment> \<open>\<open>JSON.stringify(prediction)\<close>\<close>

record http_reply =
  status :: nat
  body :: reply_body

definition systemPrompt :: string where
  "systemPrompt =
   ''You are an expert agricultural AI specialized in crop yield prediction for tropical crops in Guadeloupe. \<newline>'' @
   ''Based on environmental factors, provide accurate yield predictions with confidence levels, detailed recommendations, and disease risk analysis.\<newline>'' @
   ''\<newline>'' @
   ''Consider typical yields for Guadeloupe crops:\<newline>'' @
   ''- Canne '' @ [CHR 0xC3, CHR 0xA0] @ '' Sucre (Sugar Cane): 60-100 t/ha\<newline>'' @
   ''- Banane (Banana): 25-40 t/ha  \<newline>'' @
   ''- Ananas (Pineapple): 40-60 t/ha\<newline>'' @
   ''- Igname (Yam): 12-25 t/ha\<newline>'' @
   ''- Mad'' @ [CHR 0xC3, CHR 0xA8] @ ''re (Taro): 15-30 t/ha\<newline>'' @
   ''- Christophine (Chayote): 20-35 t/ha\<newline>'' @
   ''\<newline>'' @
   ''Also analyze disease risks based on environmental conditions:\<newline>'' @
   ''- High humidity + high rainfall '' @ [CHR 0xE2, CHR 0x86, CHR 0x92] @ '' fungal diseases (Black Sigatoka for bananas, leaf blight, root rot)\<newline>'' @
   ''- Excess moisture '' @ [CHR 0xE2, CHR 0x86, CHR 0x92] @ '' bacterial diseases, crown rot\<newline>'' @
   ''- High temperature + low moisture '' @ [CHR 0xE2, CHR 0x86, CHR 0x92] @ '' stress-related diseases, pest infestations\<newline>'' @
   ''- Poor drainage '' @ [CHR 0xE2, CHR 0x86, CHR 0x92] @ '' Phytophthora, pythium\<newline>'' @
   ''- Optimal conditions for pests '' @ [CHR 0xE2, CHR 0x86, CHR 0x92] @ '' viral diseases spread by insects\<newline>'' @
   ''\<newline>'' @
   ''Factor in how identified diseases would impact the predicted yield.\<newline>'' @
   ''\<newline>'' @
   ''Analyze how the provided environmental factors (soil type, humidity, moisture, temperature, rainfall) affect both yield potential and disease susceptibility.''"

definition userPrompt ::
  "json option \<Rightarrow> json option \<Rightarrow> json option \<Rightarrow> json option \<Rightarrow> json option \<Rightarrow> json option \<Rightarrow>
   json option \<Rightarrow> string" where
  \<open>userPrompt cropType soilType humidity moisture temperature rainfall area =
   ''Predict the yield for '' @ template_value cropType @ '' with these conditions:\<newline>'' @
   ''- Soil Type: '' @ template_value soilType @ ''\<newline>'' @
   ''- Humidity: '' @ template_value humidity @ ''%\<newline>'' @
   ''- Soil Moisture: '' @ template_value moisture @ ''%\<newline>'' @
   ''- Temperature: '' @ template_value temperature @ [CHR 0xC2, CHR 0xB0] @ ''C\<newline>'' @
   ''- Rainfall: '' @ template_value rainfall @ ''mm\<newline>'' @
   ''- Cultivation Area: '' @ template_value area @ '' hectares\<newline>'' @
   ''\<newline>'' @
   ''Provide:\<newline>'' @
   ''1. Predicted yield (in tonnes per hectare) - adjusted for disease impact if applicable\<newline>'' @
   ''2. Total production (yield '' @ [CHR 0xC3, CHR 0x97] @ '' area)\<newline>'' @
   ''3. Confidence level (0-100%)\<newline>'' @
   ''4. Quality grade (Excellente/Bonne/Moyenne/Faible)\<newline>'' @
   ''5. Disease risks - identify potential diseases based on conditions with risk level (Low/Moderate/High/Critical)\<newline>'' @
   ''6. Disease impact on yield - how identified diseases reduce potential yield\<newline>'' @
   ''7. Key factors affecting the prediction\<newline>'' @
   ''8. Specific recommendations to optimize yield and prevent/manage diseases\<newline>'' @
   ''\<newline>'' @
   ''Format your response as JSON with this structure:\<newline>'' @
   ''{\<newline>'' @
   ''  "yieldPerHectare": number,\<newline>'' @
   ''  "totalProduction": number,\<newline>'' @
   ''  "confidenceLevel": number,\<newline>'' @
   ''  "qualityGrade": string,\<newline>'' @
   ''  "diseaseRisks": [{"name": string, "riskLevel": string, "conditions": string, "yieldImpact": string}],\<newline>'' @
   ''  "keyFactors": [string],\<newline>'' @
   ''  "recommendations": [string],\<newline>'' @
   ''  "analysis": string\<newline>'' @
   ''}''\<close>

definition request_payload :: "string \<Rightarrow> string \<Rightarrow> json" where
  "request_payload sys usr =
     JObj [(''model'', JStr ''google/gemini-2.5-flash''),
           (''messages'',
              JArr [JObj [(''role'', JStr ''system''), (''content'', JStr sys)],
                    JObj [(''role'', JStr ''user''), (''content'', JStr usr)]]),
           (''temperature'', JNum ''0.7'')]"

definition response_ok :: "gateway_response \<Rightarrow> bool" where
  "response_ok response = (200 \<le> gw_status response \<and> gw_status response \<le> 299)"

text \<open>
  \<open>content.match(/\{[\s\S]*\}/)\<close>: the leftmost match starts at the first \<open>{\<close> that has a
  \<open>}\<close> somewhere after it, and the greedy star runs to the last \<open>}\<close> of the text.
\<close>

definition match_braces :: "string \<Rightarrow> string option" where
  "match_braces content =
     (case dropWhile (\<lambda>c. c \<noteq> CHR ''{'') content of
        [] \<Rightarrow> None
      | b # t \<Rightarrow>
          if CHR ''}'' \<in> set t
          then Some (b # rev (dropWhile (\<lambda>c. c \<noteq> CHR ''}'') (rev t)))
          else None)"

text \<open>
  The inner \<open>try\<close> block. Calling \<open>match\<close> on a content that is not a string raises
  TypeError inside the block, so it ends in the same \<open>catch\<close> as a failed parse.
\<close>

definition extract_prediction :: "json option \<Rightarrow> js_error + json" where
  "extract_prediction content =
     (case content of
        Some (JStr text) \<Rightarrow>
          (case (case match_braces text of
                   Some jsonMatch \<Rightarrow> JSON_parse jsonMatch
                 | None \<Rightarrow> JSON_parse text) of
             Some prediction \<Rightarrow> Inr prediction
           | None \<Rightarrow> Inl (Error ''Failed to parse prediction data''))
      | _ \<Rightarrow> Inl (Error ''Failed to parse prediction data''))"

definition read_content :: "json \<Rightarrow> js_error + json option" where
  \<comment> \<open>\<open>data.choices[0].message.content\<close>\<close>
  "read_content data =
     (case get_prop (Some data) ''choices'' of
        Inl e \<Rightarrow> Inl e
      | Inr choices \<Rightarrow>
          (case get_prop choices ''0'' of
             Inl e \<Rightarrow> Inl e
           | Inr choice \<Rightarrow>
               (case get_prop choice ''message'' of
                  Inl e \<Rightarrow> Inl e
                | Inr message \<Rightarrow> get_prop message ''content'')))"

definition request_field :: "json \<Rightarrow> string \<Rightarrow> json option" where
  \<comment> \<open>a name bound by \<open>const { cropType, ... } = await req.json()\<close>, for a body that is not \<open>null\<close>\<close>
  "request_field b k = (case get_prop (Some b) k of Inr v \<Rightarrow> v | Inl e \<Rightarrow> None)"

definition gateway_call :: "string \<Rightarrow> json \<Rightarrow> fetch_call" where
  \<comment> \<open>the arguments of \<open>fetch\<close>, for the credential and the decoded request body\<close>
  "gateway_call key b =
     \<lparr>url = ''https://ai.gateway.lovable.dev/v1/chat/completions'',
      fetch_method = ''POST'',
      authorization = ''Bearer '' @ key,
      content_type = ''application/json'',
      payload = request_payload systemPrompt
        (userPrompt (request_field b ''cropType'') (request_field b ''soilType'')
           (request_field b ''humidity'') (request_field b ''moisture'')
           (request_field b ''temperature'') (request_field b ''rainfall'')
           (request_field b ''area''))\<rparr>"

text \<open>The body of the outer \<open>try\<close>: the reply it returns or the error it throws.\<close>

definition try_block ::
  "http_request \<Rightarrow> string option \<Rightarrow> gateway \<Rightarrow> (js_error + http_reply) \<times> fetch_call list" where
  "try_block req LOVABLE_API_KEY gateway =
     (case req_json req of
        Inl e \<Rightarrow> (Inl e, [])
      | Inr b \<Rightarrow>
          if b = JNull then (Inl TypeError, [])
          else
            (case LOVABLE_API_KEY of
               None \<Rightarrow> (Inl (Error ''LOVABLE_API_KEY is not configured''), [])
             | Some key \<Rightarrow>
                 if key = [] then (Inl (Error ''LOVABLE_API_KEY is not configured''), [])
                 else
                   (let call = gateway_call key b in
                    case gateway call of
                      Inl e \<Rightarrow> (Inl e, [call])
                    | Inr response \<Rightarrow>
                        if \<not> response_ok response then
                          (if gw_status response = 429 then
                             (Inr \<lparr>status = 429,
                                   body = Error_reply (Error ''Rate limits exceeded. Please try again later.'')\<rparr>,
                              [call])
                           else if gw_status response = 402 then
                             (Inr \<lparr>status = 402,
                                   body = Error_reply (Error ''Payment required. Please add credits to your workspace.'')\<rparr>,
                              [call])
                           else
                             (case gw_text response of
                                Inl e \<Rightarrow> (Inl e, [call])
                              | Inr errorText \<Rightarrow>
                                  (Inl (Error (''AI gateway error: '' @ show_nat (gw_status response))),
                                   [call])))
                        else
                          (case gw_json response of
                             None \<Rightarrow> (Inl SyntaxError, [call])
                           | Some data \<Rightarrow>
                               (case read_content data of
                                  Inl e \<Rightarrow> (Inl e, [call])
                                | Inr content \<Rightarrow>
                                    (case extract_prediction content of
                                       Inl e \<Rightarrow> (Inl e, [call])
                                     | Inr prediction \<Rightarrow>
                                         (Inr \<lparr>status = 200, body = Stringified prediction\<rparr>,
                                          [call])))))))"

definition serve :: "http_request \<Rightarrow> string option \<Rightarrow> gateway \<Rightarrow> http_reply \<times> fetch_call list" where
  "serve req LOVABLE_API_KEY gateway =
     (if req_method req = ''OPTIONS'' then (\<lparr>status = 200, body = No_body\<rparr>, [])
      else
        (case try_block req LOVABLE_API_KEY gateway of
           (Inr reply, calls) \<Rightarrow> (reply, calls)
         | (Inl error, calls) \<Rightarrow> (\<lparr>status = 500, body = Error_reply error\<rparr>, calls)))"

section \<open>The settings provider\<close>


definition defaultSettings :: "(string \<times> json) list" where
  "defaultSettings =
     [(''darkMode'', JBool False),
      (''locale'', JStr ''en-US''),
      (''compactMode'', JBool False),
      (''currency'', JStr ''USD''),
      (''dateFormat'', JStr ''MM/DD/YYYY''),
      (''emailNotifications'', JBool True),
      (''pushNotifications'', JBool False),
      (''weatherAlerts'', JBool True),
      (''autoSave'', JBool True),
      (''offlineMode'', JBool False)]"

definition initial_settings :: "string option \<Rightarrow> (string \<times> json) list" where
  \<comment> \<open>the \<open>useState\<close> initializer; the argument is \<open>localStorage.getItem('appSettings')\<close>\<close>
  "initial_settings savedSettings =
     (case savedSettings of
        None \<Rightarrow> defaultSettings
      | Some text \<Rightarrow>
          if text = [] then defaultSettings
          else (case JSON_parse text of
                  None \<Rightarrow> defaultSettings
                | Some parsed \<Rightarrow> spread defaultSettings (own_props (Some parsed))))"

definition updateSetting :: "string \<Rightarrow> json \<Rightarrow> (string \<times> json) list \<Rightarrow> (string \<times> json) list" where
  \<comment> \<open>\<open>{ ...prevSettings, [key]: value }\<close>\<close>
  "updateSetting key val prevSettings = AList.update key val prevSettings"


section \<open>The prediction form\<close>

text \<open>
  \<open>handlePredict\<close> of the component \<open>YieldPrediction\<close>. The component state is the two
  \<open>useState\<close> cells it writes and the toasts shown so far. The function suspends once,
  at \<open>await supabase.functions.invoke\<close>: \<open>handlePredict_dispatch\<close> is the part before
  the suspension and gives the call it issues (\<open>None\<close> when it returns before the call);
  \<open>handlePredict_resume\<close> is the part after it, for what the call gave back. The setters
  store the value they are given and read nothing, so running the parts of several
  invocations one after another on the state is what the component does.
\<close>

record formData =
  cropType :: string
  soilType :: string
  humidity :: string
  moisture :: string
  temperature :: string
  rainfall :: string
  area :: string

datatype js_number = NaN | Infinity bool | Finite string

record invoke_body =
  body_cropType :: string
  body_soilType :: string
  body_humidity :: js_number
  body_moisture :: js_number
  body_temperature :: js_number
  body_rainfall :: js_number
  body_area :: js_number

record invoke_call =
  function_name :: string
  invoke_body :: invoke_body

datatype toast = Toast_error json | Toast_success string

record component_state =
  loading :: bool
  prediction :: "json option"
  toasts :: "toast list"

datatype invoke_result =
    Invoke_throws
  | Invoke_returns "json option" "string option"
    \<comment> \<open>\<open>{ data, error }\<close>: the decoded reply or \<open>null\<close>, and the message of the error if there is one\<close>

definition form_field :: "formData \<Rightarrow> string \<Rightarrow> string option" where
  \<comment> \<open>\<open>formData[field]\<close>\<close>
  "form_field fd field =
     map_of [(''cropType'', cropType fd), (''soilType'', soilType fd), (''humidity'', humidity fd),
             (''moisture'', moisture fd), (''temperature'', temperature fd),
             (''rainfall'', rainfall fd), (''area'', area fd)] field"

definition requiredFields :: "string list" where
  "requiredFields = [''humidity'', ''moisture'', ''temperature'', ''rainfall'', ''area'']"

definition is_js_space :: "char \<Rightarrow> bool" where
  \<comment> \<open>the white space of one byte; the runtime also skips white space beyond ASCII\<close>
  "is_js_space c = (c = CHR '' '' \<or> c = CHR 0x09 \<or> c = CHR 0x0A \<or> c = CHR 0x0B \<or> c = CHR 0x0C \<or> c = CHR 0x0D)"

definition exponent_part :: "string \<Rightarrow> string" where
  \<comment> \<open>the exponent a text starts with, or nothing\<close>
  "exponent_part r =
     (case r of
        [] \<Rightarrow> []
      | e # t \<Rightarrow>
          if e = CHR ''e'' \<or> e = CHR ''E'' then
            (case t of
               [] \<Rightarrow> []
             | s # t' \<Rightarrow>
                 if s = CHR ''+'' \<or> s = CHR ''-'' then
                   (if takeWhile is_digit t' = [] then [] else e # s # takeWhile is_digit t')
                 else (if takeWhile is_digit t = [] then [] else e # takeWhile is_digit t))
          else [])"

definition parseFloat :: "string \<Rightarrow> js_number" where
  \<comment> \<open>the longest prefix, after leading white space, that is a decimal literal; the
      result keeps its text (rounding and overflow to infinity are outside the model)\<close>
  "parseFloat input =
     (let s = dropWhile is_js_space input;
          sign = (case s of [] \<Rightarrow> [] | c # t \<Rightarrow> if c = CHR ''+'' \<or> c = CHR ''-'' then [c] else []);
          u = drop (length sign) s
      in if take 8 u = ''Infinity'' then Infinity (sign = ''-'')
         else
           (let ip = takeWhile is_digit u;
                r1 = dropWhile is_digit u;
                dot = (r1 \<noteq> [] \<and> hd r1 = CHR ''.'');
                fp = (if dot then takeWhile is_digit (tl r1) else []);
                r2 = (if dot then dropWhile is_digit (tl r1) else r1)
            in if ip = [] \<and> fp = [] then NaN
               else Finite (sign @ ip @ (if dot then ''.'' @ fp else []) @ exponent_part r2)))"

definition handlePredict_dispatch ::
  "formData \<Rightarrow> component_state \<Rightarrow> component_state \<times> invoke_call option" where
  "handlePredict_dispatch fd st =
     (if cropType fd = [] \<or> soilType fd = [] then
        (st\<lparr>toasts := toasts st @ [Toast_error (JStr ''Please select crop type and soil type'')]\<rparr>, None)
      else
        (let missingFields = filter (\<lambda>field. form_field fd field \<in> {None, Some []}) requiredFields in
         if length missingFields > 0 then
           (st\<lparr>toasts := toasts st @ [Toast_error (JStr ''Please fill in all environmental factors'')]\<rparr>,
            None)
         else
           (st\<lparr>loading := True, prediction := None\<rparr>,
            Some \<lparr>function_name = ''predict-yield'',
                  invoke_body =
                    \<lparr>body_cropType = cropType fd,
                     body_soilType = soilType fd,
                     body_humidity = parseFloat (humidity fd),
                     body_moisture = parseFloat (moisture fd),
                     body_temperature = parseFloat (temperature fd),
                     body_rainfall = parseFloat (rainfall fd),
                     body_area = parseFloat (area fd)\<rparr>\<rparr>)))"

fun string_includes :: "string \<Rightarrow> string \<Rightarrow> bool" where
  \<comment> \<open>\<open>s.includes(sub)\<close>\<close>
  "string_includes [] sub = (sub = [])"
| "string_includes (c # cs) sub = (take (length sub) (c # cs) = sub \<or> string_includes cs sub)"

definition handlePredict_resume :: "invoke_result \<Rightarrow> component_state \<Rightarrow> component_state" where
  "handlePredict_resume result st =
     (let after_try =
        (case result of
           Invoke_throws \<Rightarrow>
             st\<lparr>toasts := toasts st @ [Toast_error (JStr ''An unexpected error occurred'')]\<rparr>
         | Invoke_returns data error \<Rightarrow>
             (case error of
                Some message \<Rightarrow>
                  if string_includes message ''429'' then
                    st\<lparr>toasts := toasts st @
                      [Toast_error (JStr ''Rate limit exceeded. Please try again in a moment.'')]\<rparr>
                  else if string_includes message ''402'' then
                    st\<lparr>toasts := toasts st @
                      [Toast_error (JStr ''Service credits depleted. Please contact support.'')]\<rparr>
                  else
                    st\<lparr>toasts := toasts st @
                      [Toast_error (JStr ''Failed to generate prediction. Please try again.'')]\<rparr>
              | None \<Rightarrow>
                  (case get_prop data ''error'' of
                     Inl thrown \<Rightarrow>
                       st\<lparr>toasts := toasts st @ [Toast_error (JStr ''An unexpected error occurred'')]\<rparr>
                   | Inr data_error \<Rightarrow>
                       (case (if truthy data_error then data_error else None) of
                          Some shown \<Rightarrow> st\<lparr>toasts := toasts st @ [Toast_error shown]\<rparr>
                        | None \<Rightarrow>
                            st\<lparr>prediction := data,
                               toasts := toasts st @
                                 [Toast_success ''Yield prediction generated successfully!'']\<rparr>))))
      in after_try\<lparr>loading := False\<rparr>)"

definition button_disabled :: "component_state \<Rightarrow> bool" where
  \<comment> \<open>\<open>disabled={loading}\<close> on the button whose \<open>onClick\<close> is \<open>handlePredict\<close>\<close>
  "button_disabled st = loading st"

text \<open>
  The component as the user drives it. \<open>handlePredict\<close> has one caller, the button's
  \<open>onClick\<close>, and a disabled button calls nothing. A client is the component state and
  the calls issued and not yet resolved, oldest first. An event is a click on the button,
  with the form as it stands, or the resolution of one of the calls in flight.
\<close>

record client =
  ui :: component_state
  in_flight :: "invoke_call list"

datatype client_event = Click formData | Resolves nat invoke_result

definition initial_client :: client where
  \<comment> \<open>\<open>useState(false)\<close>, \<open>useState(null)\<close>, nothing issued\<close>
  "initial_client = \<lparr>ui = \<lparr>loading = False, prediction = None, toasts = []\<rparr>, in_flight = []\<rparr>"

definition onClick :: "formData \<Rightarrow> client \<Rightarrow> client" where
  "onClick fd c =
     (if button_disabled (ui c) then c
      else (case handlePredict_dispatch fd (ui c) of
              (st, None) \<Rightarrow> c\<lparr>ui := st\<rparr>
            | (st, Some call) \<Rightarrow> \<lparr>ui = st, in_flight = in_flight c @ [call]\<rparr>))"

definition call_resolves :: "nat \<Rightarrow> invoke_result \<Rightarrow> client \<Rightarrow> client option" where
  \<comment> \<open>the call at position \<open>i\<close> resolves; \<open>None\<close> when there is no such call\<close>
  "call_resolves i result c =
     (if i < length (in_flight c)
      then Some \<lparr>ui = handlePredict_resume result (ui c),
                 in_flight = take i (in_flight c) @ drop (Suc i) (in_flight c)\<rparr>
      else None)"

fun client_step :: "client_event \<Rightarrow> client \<Rightarrow> client option" where
  "client_step (Click fd) c = Some (onClick fd c)"
| "client_step (Resolves i result) c = call_resolves i result c"

fun client_run :: "client_event list \<Rightarrow> client \<Rightarrow> client option" where
  "client_run [] c = Some c"
| "client_run (e # es) c =
     (case client_step e c of None \<Rightarrow> None | Some c' \<Rightarrow> client_run es c')"

definition client_ok :: "client \<Rightarrow> bool" where
  \<comment> \<open>at most one call in flight, and one in flight exactly while \<open>loading\<close> is set\<close>
  "client_ok c = (length (in_flight c) \<le> 1 \<and> (loading (ui c) \<longleftrightarrow> in_flight c \<noteq> []))"

section \<open>The reply of the round-trip property\<close>

text \<open>
  The rendering that the specification's round-trip property feeds to the normalizer:
  a preamble, the JSON text inside a \<open>json\<close> code fence, and a trailing text.
\<close>

definition fenced_reply :: "string \<Rightarrow> string \<Rightarrow> string \<Rightarrow> string" where
  "fenced_reply preamble json_text trailing =
     preamble @ [CHR 0x60, CHR 0x60, CHR 0x60] @ ''json\<newline>'' @ json_text @
     ''\<newline>'' @ [CHR 0x60, CHR 0x60, CHR 0x60] @ trailing"

text \<open>The structured result of the specification's scenario.\<close>

definition scenario_result :: json where
  "scenario_result =
     JObj [(''yieldPerHectare'', JNum ''28.5''),
           (''totalProduction'', JNum ''114''),
           (''confidenceLevel'', JNum ''72''),
           (''qualityGrade'', JStr ''Bonne''),
           (''diseaseRisks'',
              JArr [JObj [(''name'', JStr ''Black Sigatoka''),
                          (''riskLevel'', JStr ''High''),
                          (''conditions'', JStr ''high humidity and rainfall''),
                          (''yieldImpact'', JStr ''-15%'')]]),
           (''keyFactors'', JArr [JStr ''high humidity'']),
           (''recommendations'', JArr [JStr ''improve drainage'']),
           (''analysis'', JStr ''...'')]"

section \<open>Properties of the JSON functions\<close>

lemma hex_val_hex_digit: "d < 16 \<Longrightarrow> hex_val (hex_digit d) = Some d"
proof -
  assume "d < 16"
  then have "d = 0 \<or> d = 1 \<or> d = 2 \<or> d = 3 \<or> d = 4 \<or> d = 5 \<or> d = 6 \<or> d = 7 \<or> d = 8 \<or>
             d = 9 \<or> d = 10 \<or> d = 11 \<or> d = 12 \<or> d = 13 \<or> d = 14 \<or> d = 15"
    by arith
  then show ?thesis
    by (elim disjE) (simp_all add: hex_val_def hex_digit_def upt_conv_Cons)
qed

lemma hex4_control:
  assumes "(of_char c :: nat) < 32"
  shows "hex4 (CHR ''0'') (CHR ''0'') (hex_digit (of_char c div 16)) (hex_digit (of_char c mod 16))
         = Some (of_char c)"
proof -
  have a: "(of_char c :: nat) div 16 < 16" using assms by simp
  have b: "(of_char c :: nat) mod 16 < 16" by simp
  have z: "hex_val (CHR ''0'') = Some 0" using hex_val_hex_digit[of 0] by (simp add: hex_digit_def)
  show ?thesis
    by (simp add: hex4_def z hex_val_hex_digit[OF a] hex_val_hex_digit[OF b])
qed

lemma utf8_control: "(of_char c :: nat) < 32 \<Longrightarrow> utf8 (of_char c) = Some [c]"
  by (simp add: utf8_def)

lemma parse_chars_quote_char:
  "parse_chars r = Some (s, rest) \<Longrightarrow> parse_chars (quote_char c @ r) = Some (c # s, rest)"
  by (auto simp: quote_char_def unescape_def hex4_control utf8_control)

lemma parse_chars_quoted:
  "parse_chars (concat (map quote_char s) @ CHR 0x22 # rest) = Some (s, rest)"
  by (induction s) (simp_all add: parse_chars_quote_char)


subsection \<open>Number texts\<close>

lemma valid_exponent_chars: "valid_exponent r \<Longrightarrow> list_all is_number_char r"
  by (auto simp: valid_exponent_def is_number_char_def list_all_iff Let_def
           split: list.splits if_splits)

lemma takeWhile_digit_chars: "list_all is_number_char (takeWhile is_digit t)"
  by (induction t) (auto simp: is_number_char_def)

lemma list_all_split:
  "list_all Q (takeWhile P u) \<Longrightarrow> list_all Q (dropWhile P u) \<Longrightarrow> list_all Q u"
  by (metis list_all_append takeWhile_dropWhile_id)

lemma valid_fraction_chars: "valid_fraction r \<Longrightarrow> list_all is_number_char r"
proof (cases r)
  case Nil
  then show ?thesis by simp
next
  case (Cons d t)
  assume v: "valid_fraction r"
  show ?thesis
  proof (cases "d = CHR ''.''")
    case True
    with v Cons have e: "valid_exponent (dropWhile is_digit t)" by (simp add: valid_fraction_def)
    have "list_all is_number_char t"
      using valid_exponent_chars[OF e] takeWhile_digit_chars[of t] by (rule list_all_split[rotated])
    then show ?thesis using Cons True by (simp add: is_number_char_def)
  next
    case False
    with v Cons have "valid_exponent r" by (simp add: valid_fraction_def)
    then show ?thesis by (rule valid_exponent_chars)
  qed
qed

lemma valid_number_chars: "valid_number s \<Longrightarrow> list_all is_number_char s"
proof -
  assume v: "valid_number s"
  define u where "u = (case s of [] \<Rightarrow> [] | m # t \<Rightarrow> if m = CHR ''-'' then t else s)"
  from v have f: "valid_fraction (dropWhile is_digit u)"
    by (simp add: valid_number_def u_def Let_def)
  have "list_all is_number_char u"
    using valid_fraction_chars[OF f] takeWhile_digit_chars[of u] by (rule list_all_split[rotated])
  then show ?thesis
    by (cases s) (auto simp: u_def is_number_char_def split: if_splits)
qed

lemma valid_number_first:
  "valid_number s \<Longrightarrow> \<exists>c cs. s = c # cs \<and> (c = CHR ''-'' \<or> is_digit c)"
  by (cases s) (auto simp: valid_number_def Let_def takeWhile_eq_Nil_iff split: if_splits)

lemma takeWhile_number:
  "list_all is_number_char s \<Longrightarrow> rest = [] \<or> \<not> is_number_char (hd rest) \<Longrightarrow>
   takeWhile is_number_char (s @ rest) = s \<and> dropWhile is_number_char (s @ rest) = rest"
  by (induction s) (auto simp: takeWhile_eq_Nil_iff dropWhile_eq_self_iff)

lemma skip_ws_cons: "\<not> is_ws c \<Longrightarrow> skip_ws (c # cs) = c # cs"
  by (simp add: skip_ws_def)

lemma digit_not_special:
  "is_digit c \<Longrightarrow> \<not> is_ws c \<and> c \<noteq> CHR '']'' \<and> c \<noteq> CHR ''}'' \<and> c \<noteq> CHR ''{'' \<and> c \<noteq> CHR ''[''
     \<and> c \<noteq> CHR 0x22 \<and> c \<noteq> CHR ''n'' \<and> c \<noteq> CHR ''t'' \<and> c \<noteq> CHR ''f''"
  by (auto simp: is_digit_def is_ws_def)

lemma first_char:
  "wf_json v \<Longrightarrow> \<exists>c cs. JSON_stringify v = c # cs \<and> \<not> is_ws c \<and> c \<noteq> CHR '']'' \<and> c \<noteq> CHR ''}''"
proof (cases v)
  case (JNum n)
  assume "wf_json v"
  with JNum have "valid_number n" by simp
  from valid_number_first[OF this] obtain c cs where "n = c # cs" "c = CHR ''-'' \<or> is_digit c"
    by blast
  then show ?thesis using JNum digit_not_special[of c] by (auto simp: is_ws_def)
qed (auto simp: is_ws_def quote_def)

lemma parse_null: "parse_value (Suc m) (''null'' @ rest) = Some (JNull, rest)"
  by simp

lemma parse_true: "parse_value (Suc m) (''true'' @ rest) = Some (JBool True, rest)"
  by simp

lemma parse_false: "parse_value (Suc m) (''false'' @ rest) = Some (JBool False, rest)"
  by simp

lemma parse_string: "parse_value (Suc m) (quote s @ rest) = Some (JStr s, rest)"
  by (simp add: quote_def parse_chars_quoted)

lemma parse_number:
  assumes "valid_number n" and "rest = [] \<or> \<not> is_number_char (hd rest)"
  shows "parse_value (Suc m) (n @ rest) = Some (JNum n, rest)"
proof -
  obtain c cs where n: "n = c # cs" and c: "c = CHR ''-'' \<or> is_digit c"
    using valid_number_first[OF assms(1)] by auto
  have tk: "takeWhile is_number_char (n @ rest) = n" "dropWhile is_number_char (n @ rest) = rest"
    using takeWhile_number[OF valid_number_chars[OF assms(1)] assms(2)] by auto
  have c': "c \<noteq> CHR ''{''" "c \<noteq> CHR ''[''" "c \<noteq> CHR 0x22" "c \<noteq> CHR ''n''" "c \<noteq> CHR ''t''" "c \<noteq> CHR ''f''"
    using c digit_not_special[of c] by auto
  have "parse_value (Suc m) (n @ rest) =
        (if valid_number (takeWhile is_number_char (n @ rest))
         then Some (JNum (takeWhile is_number_char (n @ rest)), dropWhile is_number_char (n @ rest))
         else None)"
    unfolding n using c' by (simp del: takeWhile.simps dropWhile.simps takeWhile_append dropWhile_append)
  then show ?thesis using assms(1) by (simp add: tk)
qed


subsection \<open>Steps of the parser\<close>

lemma parse_array_empty: "parse_value (Suc m) (CHR ''['' # CHR '']'' # rest) = Some (JArr [], rest)"
  by (simp add: skip_ws_cons is_ws_def)

lemma parse_object_empty: "parse_value (Suc m) (CHR ''{'' # CHR ''}'' # rest) = Some (JObj [], rest)"
  by (simp add: skip_ws_cons is_ws_def)

lemma parse_array_nonempty:
  "\<not> is_ws c \<Longrightarrow> c \<noteq> CHR '']'' \<Longrightarrow> parse_elements m (c # cs) = Some (xs, rest) \<Longrightarrow>
   parse_value (Suc m) (CHR ''['' # c # cs) = Some (JArr xs, rest)"
  by (simp add: skip_ws_cons)

lemma parse_object_nonempty:
  "parse_members m (CHR 0x22 # t) = Some (ms, rest) \<Longrightarrow>
   parse_value (Suc m) (CHR ''{'' # CHR 0x22 # t) = Some (JObj (build_object ms), rest)"
  by (simp add: skip_ws_cons is_ws_def)

lemma parse_elements_last:
  "\<not> is_ws c \<Longrightarrow> parse_value m (c # cs) = Some (x, CHR '']'' # rest) \<Longrightarrow>
   parse_elements (Suc m) (c # cs) = Some ([x], rest)"
  by (simp add: skip_ws_cons is_ws_def)

lemma parse_elements_more:
  "\<not> is_ws c \<Longrightarrow> parse_value m (c # cs) = Some (x, CHR '','' # r) \<Longrightarrow>
   parse_elements m r = Some (xs, rest) \<Longrightarrow>
   parse_elements (Suc m) (c # cs) = Some (x # xs, rest)"
  by (simp add: skip_ws_cons is_ws_def)

lemma parse_members_last:
  "parse_chars t = Some (k, CHR '':'' # c # cs) \<Longrightarrow> \<not> is_ws c \<Longrightarrow>
   parse_value m (c # cs) = Some (v, CHR ''}'' # rest) \<Longrightarrow>
   parse_members (Suc m) (CHR 0x22 # t) = Some ([(k, v)], rest)"
  by (simp add: skip_ws_cons is_ws_def)

lemma parse_members_more:
  "parse_chars t = Some (k, CHR '':'' # c # cs) \<Longrightarrow> \<not> is_ws c \<Longrightarrow>
   parse_value m (c # cs) = Some (v, CHR '','' # r) \<Longrightarrow>
   parse_members m r = Some (ms, rest) \<Longrightarrow>
   parse_members (Suc m) (CHR 0x22 # t) = Some ((k, v) # ms, rest)"
  by (simp add: skip_ws_cons is_ws_def)

lemma update_fresh: "k \<notin> fst ` set al \<Longrightarrow> AList.update k v al = al @ [(k, v)]"
  by (induction al) auto

lemma spread_distinct: "distinct (map fst (t @ s)) \<Longrightarrow> spread t s = t @ s"
  unfolding spread_def
proof (induction s arbitrary: t)
  case Nil
  then show ?case by simp
next
  case (Cons x xs)
  obtain k v where x: "x = (k, v)" by (cases x)
  from Cons.prems have fresh: "k \<notin> fst ` set t" by (auto simp: x)
  from Cons.prems have d: "distinct (map fst ((t @ [(k, v)]) @ xs))" by (simp add: x)
  show ?case
    using Cons.IH[OF d] by (simp add: x update_fresh[OF fresh])
qed

lemma build_object_distinct: "distinct (map fst ms) \<Longrightarrow> build_object ms = ms"
  using spread_distinct[of "[]" ms] by (simp add: build_object_def)

lemma not_number_char: "\<not> is_number_char (CHR '']'')" "\<not> is_number_char (CHR '','')"
  "\<not> is_number_char (CHR ''}'')"
  by (simp_all add: is_number_char_def is_digit_def)

lemma roundtrip_aux:
  "wf_json v \<Longrightarrow> length (JSON_stringify v) \<le> n \<Longrightarrow> rest = [] \<or> \<not> is_number_char (hd rest) \<Longrightarrow>
   parse_value n (JSON_stringify v @ rest) = Some (v, rest)"
  "xs \<noteq> [] \<Longrightarrow> wf_elements xs \<Longrightarrow> length (stringify_elements xs) < n \<Longrightarrow>
   parse_elements n (stringify_elements xs @ CHR '']'' # rest) = Some (xs, rest)"
  "ms \<noteq> [] \<Longrightarrow> wf_members ms \<Longrightarrow> length (stringify_members ms) < n \<Longrightarrow>
   parse_members n (stringify_members ms @ CHR ''}'' # rest) = Some (ms, rest)"
proof (induction v and xs and ms arbitrary: n rest and n rest and n rest
       rule: JSON_stringify_stringify_elements_stringify_members.induct)
  case 1
  then obtain m where "n = Suc m" by (cases n) auto
  then show ?case using parse_null by simp
next
  case (2 b)
  then obtain m where "n = Suc m" by (cases n) (auto split: if_splits)
  then show ?case using parse_true[of m rest] parse_false[of m rest] by simp
next
  case (3 num)
  then have v: "valid_number num" by simp
  then have "num \<noteq> []" using valid_number_first by auto
  with 3 obtain m where "n = Suc m" by (cases n) auto
  then show ?case using parse_number[OF v "3.prems"(3)] by simp
next
  case (4 s)
  then obtain m where "n = Suc m" by (cases n) (auto simp: quote_def)
  then show ?case using parse_string[of m s rest] by simp
next
  case (5 xs)
  then obtain m where n: "n = Suc m" and m: "length (stringify_elements xs) < m"
    by (cases n) auto
  show ?case
  proof (cases "xs = []")
    case True
    then show ?thesis
      using parse_array_empty[of m rest] by (simp add: n del: parse_value.simps)
  next
    case False
    then obtain x xs' where xs: "xs = x # xs'" by (cases xs) auto
    with "5.prems" have "wf_json x" by simp
    from first_char[OF this] obtain c cs where
      x: "JSON_stringify x = c # cs" and c: "\<not> is_ws c" "c \<noteq> CHR '']''" by blast
    obtain cs' where e: "stringify_elements xs = c # cs'"
      using x xs by (cases xs') auto
    have "parse_elements m (stringify_elements xs @ CHR '']'' # rest) = Some (xs, rest)"
      using "5.IH"[OF False _ m] "5.prems" by simp
    then have "parse_elements m (c # cs' @ CHR '']'' # rest) = Some (xs, rest)"
      by (simp add: e)
    from parse_array_nonempty[OF c this] show ?thesis by (simp add: n e)
  qed
next
  case (6 kvs)
  then obtain m where n: "n = Suc m" and m: "length (stringify_members kvs) < m"
    by (cases n) auto
  from "6.prems" have d: "distinct (map fst kvs)" and w: "wf_members kvs" by simp_all
  show ?case
  proof (cases "kvs = []")
    case True
    then show ?thesis
      using parse_object_empty[of m rest] by (simp add: n del: parse_value.simps)
  next
    case False
    then obtain k v kvs' where kvs: "kvs = (k, v) # kvs'" by (cases kvs) auto
    obtain t where e: "stringify_members kvs = CHR 0x22 # t"
      using kvs by (cases kvs') (auto simp: quote_def)
    have "parse_members m (stringify_members kvs @ CHR ''}'' # rest) = Some (kvs, rest)"
      using "6.IH"[OF False w m] by simp
    then have "parse_members m (CHR 0x22 # t @ CHR ''}'' # rest) = Some (kvs, rest)"
      by (simp add: e)
    from parse_object_nonempty[OF this] show ?thesis
      by (simp add: n e build_object_distinct[OF d])
  qed
next
  case 7
  then show ?case by simp
next
  case (8 x)
  then obtain m where n: "n = Suc m" and m: "length (JSON_stringify x) \<le> m"
    by (cases n) auto
  from "8.prems" have w: "wf_json x" by simp
  from first_char[OF w] obtain c cs where
    x: "JSON_stringify x = c # cs" and c: "\<not> is_ws c" by blast
  have "parse_value m (JSON_stringify x @ CHR '']'' # rest) = Some (x, CHR '']'' # rest)"
    using "8.IH"[OF w m] by (simp add: not_number_char)
  then have "parse_value m (c # cs @ CHR '']'' # rest) = Some (x, CHR '']'' # rest)"
    by (simp add: x)
  from parse_elements_last[OF c this] show ?case by (simp add: n x)
next
  case (9 x y ys)
  then obtain m where n: "n = Suc m"
    and m: "length (JSON_stringify x) + 1 + length (stringify_elements (y # ys)) \<le> m"
    by (cases n) auto
  from "9.prems" have w: "wf_json x" and ws: "wf_elements (y # ys)" by simp_all
  from first_char[OF w] obtain c cs where
    x: "JSON_stringify x = c # cs" and c: "\<not> is_ws c" by blast
  let ?r = "stringify_elements (y # ys) @ CHR '']'' # rest"
  have "parse_value m (JSON_stringify x @ CHR '','' # ?r) = Some (x, CHR '','' # ?r)"
    using "9.IH"(1)[OF w, of m "CHR '','' # ?r"] m by (simp add: not_number_char)
  then have 1: "parse_value m (c # cs @ CHR '','' # ?r) = Some (x, CHR '','' # ?r)"
    by (simp add: x)
  have 2: "parse_elements m ?r = Some (y # ys, rest)"
    using "9.IH"(2)[OF _ ws, of m rest] m by simp
  from parse_elements_more[OF c 1 2] show ?case by (simp add: n x)
next
  case 10
  then show ?case by simp
next
  case (11 k v)
  then obtain m where n: "n = Suc m" and m: "length (JSON_stringify v) \<le> m"
    by (cases n) auto
  from "11.prems" have w: "wf_json v" by simp
  from first_char[OF w] obtain c cs where
    x: "JSON_stringify v = c # cs" and c: "\<not> is_ws c" by blast
  let ?t = "concat (map quote_char k) @ CHR 0x22 # CHR '':'' # c # cs @ CHR ''}'' # rest"
  have 0: "parse_chars ?t = Some (k, CHR '':'' # c # cs @ CHR ''}'' # rest)"
    by (rule parse_chars_quoted)
  have "parse_value m (JSON_stringify v @ CHR ''}'' # rest) = Some (v, CHR ''}'' # rest)"
    using "11.IH"[OF w m] by (simp add: not_number_char)
  then have 1: "parse_value m (c # cs @ CHR ''}'' # rest) = Some (v, CHR ''}'' # rest)"
    by (simp add: x)
  from parse_members_last[OF 0 c 1] show ?case by (simp add: n x quote_def)
next
  case (12 k v mm ms)
  then obtain m where n: "n = Suc m"
    and m: "length (JSON_stringify v) + 1 + length (stringify_members (mm # ms)) \<le> m"
    by (cases n) auto
  from "12.prems" have w: "wf_json v" and ws: "wf_members (mm # ms)" by simp_all
  from first_char[OF w] obtain c cs where
    x: "JSON_stringify v = c # cs" and c: "\<not> is_ws c" by blast
  let ?r = "stringify_members (mm # ms) @ CHR ''}'' # rest"
  let ?t = "concat (map quote_char k) @ CHR 0x22 # CHR '':'' # c # cs @ CHR '','' # ?r"
  have 0: "parse_chars ?t = Some (k, CHR '':'' # c # cs @ CHR '','' # ?r)"
    by (rule parse_chars_quoted)
  have "parse_value m (JSON_stringify v @ CHR '','' # ?r) = Some (v, CHR '','' # ?r)"
    using "12.IH"(1)[OF w, of m "CHR '','' # ?r"] m by (simp add: not_number_char)
  then have 1: "parse_value m (c # cs @ CHR '','' # ?r) = Some (v, CHR '','' # ?r)"
    by (simp add: x)
  have 2: "parse_members m ?r = Some (mm # ms, rest)"
    using "12.IH"(2)[OF _ ws, of m rest] m by simp
  from parse_members_more[OF 0 c 1 2] show ?case by (simp add: n x quote_def)
qed

lemma JSON_roundtrip: "wf_json v \<Longrightarrow> JSON_parse (JSON_stringify v) = Some v"
proof -
  assume w: "wf_json v"
  from first_char[OF w] obtain c cs where
    x: "JSON_stringify v = c # cs" and c: "\<not> is_ws c" by blast
  have sk: "skip_ws (JSON_stringify v) = JSON_stringify v"
    by (simp add: x skip_ws_cons[OF c])
  have "parse_value (2 * length (JSON_stringify v) + 1) (JSON_stringify v @ []) = Some (v, [])"
    by (rule roundtrip_aux(1)[OF w]) simp_all
  then have pv: "parse_value (2 * length (JSON_stringify v) + 1) (JSON_stringify v) = Some (v, [])"
    by (simp del: parse_value.simps)
  show ?thesis
    unfolding JSON_parse_def sk pv by (simp add: skip_ws_def)
qed

subsection \<open>Inversion of the parser's equations\<close>

lemma parse_chars_shorter: "parse_chars s = Some (x, r) \<Longrightarrow> length r < length s"
proof (induction s arbitrary: x r rule: length_induct)
  case (1 s)
  note IH = "1.IH"[rule_format]
  show ?case
  proof (cases s)
    case Nil
    with "1.prems" show ?thesis by simp
  next
    case (Cons c cs)
    show ?thesis
    proof (cases "c = CHR 0x22")
      case True
      with "1.prems" Cons show ?thesis by simp
    next
      case nq: False
      show ?thesis
      proof (cases "c = CHR 0x5C")
        case True
        show ?thesis
        proof (cases cs)
          case Nil
          with "1.prems" \<open>s = c # cs\<close> nq True show ?thesis by simp
        next
          case (Cons e cs')
          show ?thesis
          proof (cases "e = CHR ''u''")
            case u: True
            from "1.prems" \<open>s = c # cs\<close> nq True Cons u obtain a b c' d cs'' s' where
              cs': "cs' = a # b # c' # d # cs''" and r: "parse_chars cs'' = Some (s', r)"
              by (auto split: list.splits option.splits)
            have "length cs'' < length s" by (simp add: \<open>s = c # cs\<close> Cons cs')
            from IH[OF this r] show ?thesis by (simp add: \<open>s = c # cs\<close> Cons cs')
          next
            case nu: False
            from "1.prems" \<open>s = c # cs\<close> nq True Cons nu obtain s' where
              r: "parse_chars cs' = Some (s', r)"
              by (auto split: option.splits)
            have "length cs' < length s" by (simp add: \<open>s = c # cs\<close> Cons)
            from IH[OF this r] show ?thesis by (simp add: \<open>s = c # cs\<close> Cons)
          qed
        qed
      next
        case False
        from "1.prems" Cons nq False obtain s' where r: "parse_chars cs = Some (s', r)"
          by (auto split: option.splits if_splits)
        have "length cs < length s" by (simp add: Cons)
        from IH[OF this r] show ?thesis by (simp add: Cons)
      qed
    qed
  qed
qed

lemma skip_ws_length: "length (skip_ws s) \<le> length s"
  by (simp add: skip_ws_def length_dropWhile_le)

lemma scalar_consumes:
  assumes "c \<noteq> CHR ''{''" and "c \<noteq> CHR ''[''"
    and p: "parse_value (Suc n) (c # cs) = Some (v, r)"
  shows "length r \<le> length cs"
proof (cases "c = CHR 0x22")
  case True
  with p obtain str where "parse_chars cs = Some (str, r)"
    by (auto split: option.splits)
  from parse_chars_shorter[OF this] show ?thesis by simp
next
  case False
  let ?s = "c # cs"
  from p assms(1,2) False have
    "(take 4 ?s = ''null'' \<and> r = drop 4 ?s) \<or> (take 4 ?s = ''true'' \<and> r = drop 4 ?s) \<or>
     (take 5 ?s = ''false'' \<and> r = drop 5 ?s) \<or>
     (valid_number (takeWhile is_number_char ?s) \<and> r = dropWhile is_number_char ?s)"
    by (simp del: take_Cons_numeral drop_Cons_numeral takeWhile.simps dropWhile.simps
             split: if_splits)
  then show ?thesis
  proof (elim disjE conjE)
    assume v: "valid_number (takeWhile is_number_char ?s)" and r: "r = dropWhile is_number_char ?s"
    from valid_number_first[OF v] have "takeWhile is_number_char ?s \<noteq> []" by (auto split: if_splits)
    then have "is_number_char c" by (cases "is_number_char c") simp_all
    then show ?thesis using r by (simp add: length_dropWhile_le)
  qed simp_all
qed

lemma scalar_any_fuel:
  assumes "c \<noteq> CHR ''{''" and "c \<noteq> CHR ''[''"
  shows "parse_value (Suc m) (c # cs) = parse_value (Suc n) (c # cs)"
  using assms by simp


lemma parse_value_cases [consumes 1, case_names scalar obj_empty obj arr_empty arr]:
  assumes p: "parse_value (Suc n) s = Some (v, r)"
  obtains
    (scalar) c cs where "s = c # cs" "c \<noteq> CHR ''{''" "c \<noteq> CHR ''[''"
  | (obj_empty) cs where "s = CHR ''{'' # cs" "skip_ws cs = CHR ''}'' # r" "v = JObj []"
  | (obj) cs d r0 ms where "s = CHR ''{'' # cs" "skip_ws cs = d # r0" "d \<noteq> CHR ''}''"
      "parse_members n (d # r0) = Some (ms, r)" "v = JObj (build_object ms)"
  | (arr_empty) cs where "s = CHR ''['' # cs" "skip_ws cs = CHR '']'' # r" "v = JArr []"
  | (arr) cs d r0 vs where "s = CHR ''['' # cs" "skip_ws cs = d # r0" "d \<noteq> CHR '']''"
      "parse_elements n (d # r0) = Some (vs, r)" "v = JArr vs"
proof (cases s)
  case Nil
  with p show ?thesis by simp
next
  case (Cons c cs)
  show ?thesis
  proof (cases "c = CHR ''{''")
    case True
    show ?thesis
    proof (cases "skip_ws cs")
      case Nil
      with p Cons True show ?thesis by simp
    next
      case sk: (Cons d r0)
      show ?thesis
      proof (cases "d = CHR ''}''")
        case True
        with p Cons \<open>c = CHR ''{''\<close> sk show ?thesis by (intro obj_empty[of cs]) simp_all
      next
        case False
        with p Cons \<open>c = CHR ''{''\<close> sk obtain ms where
          "parse_members n (d # r0) = Some (ms, r)" "v = JObj (build_object ms)"
          by (auto split: option.splits)
        with Cons \<open>c = CHR ''{''\<close> sk False show ?thesis by (intro obj[of cs d r0 ms]) simp_all
      qed
    qed
  next
    case notobj: False
    show ?thesis
    proof (cases "c = CHR ''[''")
      case True
      show ?thesis
      proof (cases "skip_ws cs")
        case Nil
        with p Cons True show ?thesis by simp
      next
        case sk: (Cons d r0)
        show ?thesis
        proof (cases "d = CHR '']''")
          case True
          with p Cons \<open>c = CHR ''[''\<close> sk show ?thesis by (intro arr_empty[of cs]) simp_all
        next
          case False
          with p Cons \<open>c = CHR ''[''\<close> sk obtain vs where
            "parse_elements n (d # r0) = Some (vs, r)" "v = JArr vs"
            by (auto split: option.splits)
          with Cons \<open>c = CHR ''[''\<close> sk False show ?thesis by (intro arr[of cs d r0 vs]) simp_all
        qed
      qed
    next
      case False
      with Cons notobj show ?thesis by (intro scalar[of c cs]) simp_all
    qed
  qed
qed

lemma parse_elements_cases [consumes 1, case_names last more]:
  assumes p: "parse_elements (Suc n) s = Some (vs, r)"
  obtains
    (last) v r1 where "parse_value n (skip_ws s) = Some (v, r1)" "skip_ws r1 = CHR '']'' # r"
      "vs = [v]"
  | (more) v r1 r' vs' where "parse_value n (skip_ws s) = Some (v, r1)"
      "skip_ws r1 = CHR '','' # r'" "parse_elements n r' = Some (vs', r)" "vs = v # vs'"
proof (cases "parse_value n (skip_ws s)")
  case None
  with p show ?thesis by simp
next
  case (Some a)
  obtain v r1 where a: "a = (v, r1)" by (cases a)
  show ?thesis
  proof (cases "skip_ws r1")
    case Nil
    with p Some a show ?thesis by simp
  next
    case (Cons d r')
    show ?thesis
    proof (cases "d = CHR '',''")
      case True
      with p Some a Cons obtain vs' where "parse_elements n r' = Some (vs', r)" "vs = v # vs'"
        by (auto split: option.splits)
      with Some a Cons True show ?thesis by (intro more[of v r1 r' vs']) simp_all
    next
      case False
      with p Some a Cons have "d = CHR '']''" "r = r'" "vs = [v]"
        by (auto split: if_splits)
      with Some a Cons show ?thesis by (intro last[of v r1]) simp_all
    qed
  qed
qed

lemma parse_members_cases [consumes 1, case_names last more]:
  assumes p: "parse_members (Suc n) s = Some (ms, r)"
  obtains
    (last) t k r0 r1 v r2 where "skip_ws s = CHR 0x22 # t" "parse_chars t = Some (k, r0)"
      "skip_ws r0 = CHR '':'' # r1" "parse_value n (skip_ws r1) = Some (v, r2)"
      "skip_ws r2 = CHR ''}'' # r" "ms = [(k, v)]"
  | (more) t k r0 r1 v r2 r3 ms' where "skip_ws s = CHR 0x22 # t" "parse_chars t = Some (k, r0)"
      "skip_ws r0 = CHR '':'' # r1" "parse_value n (skip_ws r1) = Some (v, r2)"
      "skip_ws r2 = CHR '','' # r3" "parse_members n r3 = Some (ms', r)" "ms = (k, v) # ms'"
proof (cases "skip_ws s")
  case Nil
  with p show ?thesis by simp
next
  case sk: (Cons q t)
  with p have q: "q = CHR 0x22" by (auto split: if_splits)
  show ?thesis
  proof (cases "parse_chars t")
    case None
    with p sk q show ?thesis by simp
  next
    case (Some a)
    obtain k r0 where a: "a = (k, r0)" by (cases a)
    show ?thesis
    proof (cases "skip_ws r0")
      case Nil
      with p sk q Some a show ?thesis by simp
    next
      case sk0: (Cons col r1)
      with p sk q Some a have col: "col = CHR '':''" by (auto split: if_splits)
      show ?thesis
      proof (cases "parse_value n (skip_ws r1)")
        case None
        with p sk q Some a sk0 col show ?thesis by simp
      next
        case pv: (Some b)
        obtain v r2 where b: "b = (v, r2)" by (cases b)
        show ?thesis
        proof (cases "skip_ws r2")
          case Nil
          with p sk q Some a sk0 col pv b show ?thesis by simp
        next
          case sk2: (Cons d r3)
          show ?thesis
          proof (cases "d = CHR '',''")
            case True
            with p sk q Some a sk0 col pv b sk2 obtain ms' where
              "parse_members n r3 = Some (ms', r)" "ms = (k, v) # ms'"
              by (auto split: option.splits)
            with sk q Some a sk0 col pv b sk2 True show ?thesis
              by (intro more[of t k r0 r1 v r2 r3 ms']) simp_all
          next
            case False
            with p sk q Some a sk0 col pv b sk2 have "d = CHR ''}''" "r = r3" "ms = [(k, v)]"
              by (auto split: if_splits)
            with sk q Some a sk0 col pv b sk2 show ?thesis
              by (intro last[of t k r0 r1 v r2]) simp_all
          qed
        qed
      qed
    qed
  qed
qed


subsection \<open>The bound on nested calls is enough\<close>

lemma value_obj_empty_I:
  "skip_ws cs = CHR ''}'' # r \<Longrightarrow> parse_value (Suc m) (CHR ''{'' # cs) = Some (JObj [], r)"
  by simp

lemma value_obj_I:
  "skip_ws cs = d # r0 \<Longrightarrow> d \<noteq> CHR ''}'' \<Longrightarrow> parse_members m (d # r0) = Some (ms, r) \<Longrightarrow>
   parse_value (Suc m) (CHR ''{'' # cs) = Some (JObj (build_object ms), r)"
  by simp

lemma value_arr_empty_I:
  "skip_ws cs = CHR '']'' # r \<Longrightarrow> parse_value (Suc m) (CHR ''['' # cs) = Some (JArr [], r)"
  by simp

lemma value_arr_I:
  "skip_ws cs = d # r0 \<Longrightarrow> d \<noteq> CHR '']'' \<Longrightarrow> parse_elements m (d # r0) = Some (vs, r) \<Longrightarrow>
   parse_value (Suc m) (CHR ''['' # cs) = Some (JArr vs, r)"
  by simp

lemma elements_last_I:
  "parse_value m (skip_ws s) = Some (v, r1) \<Longrightarrow> skip_ws r1 = CHR '']'' # r \<Longrightarrow>
   parse_elements (Suc m) s = Some ([v], r)"
  by simp

lemma elements_more_I:
  "parse_value m (skip_ws s) = Some (v, r1) \<Longrightarrow> skip_ws r1 = CHR '','' # r' \<Longrightarrow>
   parse_elements m r' = Some (vs, r) \<Longrightarrow> parse_elements (Suc m) s = Some (v # vs, r)"
  by simp

lemma members_last_I:
  "skip_ws s = CHR 0x22 # t \<Longrightarrow> parse_chars t = Some (k, r0) \<Longrightarrow> skip_ws r0 = CHR '':'' # r1 \<Longrightarrow>
   parse_value m (skip_ws r1) = Some (v, r2) \<Longrightarrow> skip_ws r2 = CHR ''}'' # r \<Longrightarrow>
   parse_members (Suc m) s = Some ([(k, v)], r)"
  by simp

lemma members_more_I:
  "skip_ws s = CHR 0x22 # t \<Longrightarrow> parse_chars t = Some (k, r0) \<Longrightarrow> skip_ws r0 = CHR '':'' # r1 \<Longrightarrow>
   parse_value m (skip_ws r1) = Some (v, r2) \<Longrightarrow> skip_ws r2 = CHR '','' # r3 \<Longrightarrow>
   parse_members m r3 = Some (ms, r) \<Longrightarrow> parse_members (Suc m) s = Some ((k, v) # ms, r)"
  by simp

lemma skip_ws_cons_length: "skip_ws s = d # r \<Longrightarrow> length r < length s"
  using skip_ws_length[of s] by simp

lemma fuel_enough:
  "(\<forall>s v r. parse_value n s = Some (v, r) \<longrightarrow>
      length r < length s \<and>
      (\<forall>m. 2 * (length s - length r) \<le> m + 1 \<longrightarrow> parse_value m s = Some (v, r))) \<and>
   (\<forall>s vs r. parse_elements n s = Some (vs, r) \<longrightarrow>
      length r + 2 \<le> length s \<and>
      (\<forall>m. 2 * (length s - length r) \<le> m + 2 \<longrightarrow> parse_elements m s = Some (vs, r))) \<and>
   (\<forall>s ms r. parse_members n s = Some (ms, r) \<longrightarrow>
      length r + 2 \<le> length s \<and>
      (\<forall>m. 2 * (length s - length r) \<le> m + 2 \<longrightarrow> parse_members m s = Some (ms, r)))"
proof (induction n)
  case 0
  then show ?case by simp
next
  case (Suc n)
  note IHv = Suc.IH[THEN conjunct1, rule_format]
  note IHe = Suc.IH[THEN conjunct2, THEN conjunct1, rule_format]
  note IHm = Suc.IH[THEN conjunct2, THEN conjunct2, rule_format]
  show ?case
  proof (intro conjI allI impI)
    fix s v r
    assume p: "parse_value (Suc n) s = Some (v, r)"
    from p show "length r < length s"
    proof (cases rule: parse_value_cases)
      case (scalar c cs)
      have "parse_value (Suc n) (c # cs) = Some (v, r)"
        using p scalar(1) by (simp del: parse_value.simps)
      from scalar_consumes[OF scalar(2,3) this] scalar(1) show ?thesis by simp
    next
      case (obj_empty cs)
      with skip_ws_cons_length[of cs] show ?thesis by simp
    next
      case (obj cs d r0 ms)
      with skip_ws_length[of cs] IHm[OF obj(4)] show ?thesis by simp
    next
      case (arr_empty cs)
      with skip_ws_cons_length[of cs] show ?thesis by simp
    next
      case (arr cs d r0 vs)
      with skip_ws_length[of cs] IHe[OF arr(4)] show ?thesis by simp
    qed
  next
    fix s v r m
    assume p: "parse_value (Suc n) s = Some (v, r)" and m: "2 * (length s - length r) \<le> m + 1"
    from p show "parse_value m s = Some (v, r)"
    proof (cases rule: parse_value_cases)
      case (scalar c cs)
      have q: "parse_value (Suc n) (c # cs) = Some (v, r)"
        using p scalar(1) by (simp del: parse_value.simps)
      from scalar_consumes[OF scalar(2,3) q] scalar(1) have "length r < length s" by simp
      with m obtain m' where m': "m = Suc m'" by (cases m) auto
      show ?thesis
        unfolding m' scalar(1)
        using scalar_any_fuel[OF scalar(2,3), where m = m' and n = n and cs = cs] q
        by (simp del: parse_value.simps)
    next
      case (obj_empty cs)
      from skip_ws_cons_length[OF obj_empty(2)] obj_empty(1) have "length r < length s" by simp
      with m obtain m' where m': "m = Suc m'" by (cases m) auto
      show ?thesis unfolding m' obj_empty(1,3) by (rule value_obj_empty_I[OF obj_empty(2)])
    next
      case (obj cs d r0 ms)
      from IHm[OF obj(4)] have l: "length r + 2 \<le> length (d # r0)" and
        f: "\<And>k. 2 * (length (d # r0) - length r) \<le> k + 2 \<Longrightarrow> parse_members k (d # r0) = Some (ms, r)"
        by auto
      from skip_ws_length[of cs] obj(1,2) have c: "length (d # r0) < length s" by simp
      with l m obtain m' where m': "m = Suc m'" by (cases m) auto
      have "2 * (length (d # r0) - length r) \<le> m' + 2" using c l m m' by arith
      from f[OF this] show ?thesis
        unfolding m' obj(1,5) by (rule value_obj_I[OF obj(2,3)])
    next
      case (arr_empty cs)
      from skip_ws_cons_length[OF arr_empty(2)] arr_empty(1) have "length r < length s" by simp
      with m obtain m' where m': "m = Suc m'" by (cases m) auto
      show ?thesis unfolding m' arr_empty(1,3) by (rule value_arr_empty_I[OF arr_empty(2)])
    next
      case (arr cs d r0 vs)
      from IHe[OF arr(4)] have l: "length r + 2 \<le> length (d # r0)" and
        f: "\<And>k. 2 * (length (d # r0) - length r) \<le> k + 2 \<Longrightarrow> parse_elements k (d # r0) = Some (vs, r)"
        by auto
      from skip_ws_length[of cs] arr(1,2) have c: "length (d # r0) < length s" by simp
      with l m obtain m' where m': "m = Suc m'" by (cases m) auto
      have "2 * (length (d # r0) - length r) \<le> m' + 2" using c l m m' by arith
      from f[OF this] show ?thesis
        unfolding m' arr(1,5) by (rule value_arr_I[OF arr(2,3)])
    qed
  next
    fix s vs r
    assume p: "parse_elements (Suc n) s = Some (vs, r)"
    from p show "length r + 2 \<le> length s"
    proof (cases rule: parse_elements_cases)
      case (last v r1)
      with IHv[OF last(1)] skip_ws_length[of s] skip_ws_cons_length[OF last(2)]
      show ?thesis by simp
    next
      case (more v r1 r' vs')
      with IHv[OF more(1)] skip_ws_length[of s] skip_ws_cons_length[OF more(2)] IHe[OF more(3)]
      show ?thesis by simp
    qed
  next
    fix s vs r m
    assume p: "parse_elements (Suc n) s = Some (vs, r)" and m: "2 * (length s - length r) \<le> m + 2"
    from p show "parse_elements m s = Some (vs, r)"
    proof (cases rule: parse_elements_cases)
      case (last v r1)
      from IHv[OF last(1)] have l1: "length r1 < length (skip_ws s)" and
        f: "\<And>k. 2 * (length (skip_ws s) - length r1) \<le> k + 1 \<Longrightarrow> parse_value k (skip_ws s) = Some (v, r1)"
        by auto
      note l2 = skip_ws_cons_length[OF last(2)] and l0 = skip_ws_length[of s]
      from l0 l1 l2 m obtain m' where m': "m = Suc m'" by (cases m) auto
      have "2 * (length (skip_ws s) - length r1) \<le> m' + 1" using l0 l1 l2 m m' by arith
      from f[OF this] show ?thesis
        unfolding m' last(3) by (rule elements_last_I[OF _ last(2)])
    next
      case (more v r1 r' vs')
      from IHv[OF more(1)] have l1: "length r1 < length (skip_ws s)" and
        f: "\<And>k. 2 * (length (skip_ws s) - length r1) \<le> k + 1 \<Longrightarrow> parse_value k (skip_ws s) = Some (v, r1)"
        by auto
      from IHe[OF more(3)] have l3: "length r + 2 \<le> length r'" and
        g: "\<And>k. 2 * (length r' - length r) \<le> k + 2 \<Longrightarrow> parse_elements k r' = Some (vs', r)"
        by auto
      note l2 = skip_ws_cons_length[OF more(2)] and l0 = skip_ws_length[of s]
      from l0 l1 l2 l3 m obtain m' where m': "m = Suc m'" by (cases m) auto
      have a: "2 * (length (skip_ws s) - length r1) \<le> m' + 1" using l0 l1 l2 l3 m m' by arith
      have b: "2 * (length r' - length r) \<le> m' + 2" using l0 l1 l2 l3 m m' by arith
      show ?thesis
        unfolding m' more(4) by (rule elements_more_I[OF f[OF a] more(2) g[OF b]])
    qed
  next
    fix s ms r
    assume p: "parse_members (Suc n) s = Some (ms, r)"
    from p show "length r + 2 \<le> length s"
    proof (cases rule: parse_members_cases)
      case (last t k r0 r1 v r2)
      with skip_ws_cons_length[OF last(1)] parse_chars_shorter[OF last(2)]
        skip_ws_cons_length[OF last(3)] IHv[OF last(4)] skip_ws_length[of r1]
        skip_ws_cons_length[OF last(5)]
      show ?thesis by simp
    next
      case (more t k r0 r1 v r2 r3 ms')
      with skip_ws_cons_length[OF more(1)] parse_chars_shorter[OF more(2)]
        skip_ws_cons_length[OF more(3)] IHv[OF more(4)] skip_ws_length[of r1]
        skip_ws_cons_length[OF more(5)] IHm[OF more(6)]
      show ?thesis by simp
    qed
  next
    fix s ms r m
    assume p: "parse_members (Suc n) s = Some (ms, r)" and m: "2 * (length s - length r) \<le> m + 2"
    from p show "parse_members m s = Some (ms, r)"
    proof (cases rule: parse_members_cases)
      case (last t k r0 r1 v r2)
      from IHv[OF last(4)] have l4: "length r2 < length (skip_ws r1)" and
        f: "\<And>j. 2 * (length (skip_ws r1) - length r2) \<le> j + 1 \<Longrightarrow> parse_value j (skip_ws r1) = Some (v, r2)"
        by auto
      note l = skip_ws_cons_length[OF last(1)] parse_chars_shorter[OF last(2)]
        skip_ws_cons_length[OF last(3)] skip_ws_length[of r1] skip_ws_cons_length[OF last(5)]
      from l l4 m obtain m' where m': "m = Suc m'" by (cases m) auto
      have a: "2 * (length (skip_ws r1) - length r2) \<le> m' + 1" using l l4 m m' by arith
      show ?thesis
        unfolding m' last(6) by (rule members_last_I[OF last(1,2,3) f[OF a] last(5)])
    next
      case (more t k r0 r1 v r2 r3 ms')
      from IHv[OF more(4)] have l4: "length r2 < length (skip_ws r1)" and
        f: "\<And>j. 2 * (length (skip_ws r1) - length r2) \<le> j + 1 \<Longrightarrow> parse_value j (skip_ws r1) = Some (v, r2)"
        by auto
      from IHm[OF more(6)] have l6: "length r + 2 \<le> length r3" and
        g: "\<And>j. 2 * (length r3 - length r) \<le> j + 2 \<Longrightarrow> parse_members j r3 = Some (ms', r)"
        by auto
      note l = skip_ws_cons_length[OF more(1)] parse_chars_shorter[OF more(2)]
        skip_ws_cons_length[OF more(3)] skip_ws_length[of r1] skip_ws_cons_length[OF more(5)]
      from l l4 l6 m obtain m' where m': "m = Suc m'" by (cases m) auto
      have a: "2 * (length (skip_ws r1) - length r2) \<le> m' + 1" using l l4 l6 m m' by arith
      have b: "2 * (length r3 - length r) \<le> m' + 2" using l l4 l6 m m' by arith
      show ?thesis
        unfolding m' more(7) by (rule members_more_I[OF more(1,2,3) f[OF a] more(5) g[OF b]])
    qed
  qed
qed

lemma JSON_parse_any_fuel:
  assumes "parse_value n (skip_ws s) = Some (v, r)" and "skip_ws r = []"
  shows "JSON_parse s = Some v"
proof -
  from fuel_enough[of n, THEN conjunct1, rule_format, OF assms(1)]
  have l: "length r < length (skip_ws s)" and
    f: "\<And>m. 2 * (length (skip_ws s) - length r) \<le> m + 1 \<Longrightarrow> parse_value m (skip_ws s) = Some (v, r)"
    by auto
  have "2 * (length (skip_ws s) - length r) \<le> (2 * length s + 1) + 1"
    using skip_ws_length[of s] by arith
  from f[OF this] show ?thesis
    by (simp add: JSON_parse_def assms(2) del: parse_value.simps)
qed

text \<open>
  So the bound never decides the outcome: a text that parses with some bound parses in
  \<open>JSON_parse\<close>, and \<open>JSON_parse s = None\<close> means that no bound makes \<open>s\<close> parse.
\<close>

section \<open>Properties of the forwarding function\<close>

subsection \<open>Decimal texts\<close>

lemma digit_val_nth: "d < 10 \<Longrightarrow> digit_val (''0123456789'' ! d) = Some d"
proof -
  assume "d < 10"
  then have "d \<in> {0,1,2,3,4,5,6,7,8,9}" by auto
  then show ?thesis by (auto simp: digit_val_def upt_conv_Cons)
qed

lemma show_nat_ne: "show_nat n \<noteq> []"
  by (subst show_nat.simps) simp

lemma foldl_show_nat:
  "foldl read_step (Some a) (show_nat n) = Some (a * 10 ^ length (show_nat n) + n)"
proof (induction n arbitrary: a rule: show_nat.induct)
  case (1 n)
  show ?case
  proof (cases "n < 10")
    case True
    then show ?thesis by (subst (1 2) show_nat.simps) (simp add: digit_val_nth read_step_def)
  next
    case False
    then have d: "n mod 10 < 10" by simp
    have "foldl read_step (Some a) (show_nat n)
          = read_step (foldl read_step (Some a) (show_nat (n div 10))) (''0123456789'' ! (n mod 10))"
      using False by (subst show_nat.simps) simp
    also have "\<dots> = Some (10 * (a * 10 ^ length (show_nat (n div 10)) + n div 10) + n mod 10)"
      using False by (simp add: "1.IH" read_step_def digit_val_nth[OF d])
    also have "length (show_nat n) = Suc (length (show_nat (n div 10)))"
      using False by (subst show_nat.simps) simp
    then have "10 * (a * 10 ^ length (show_nat (n div 10)) + n div 10) + n mod 10
               = a * 10 ^ length (show_nat n) + n"
      by (simp add: algebra_simps)
    finally show ?thesis .
  qed
qed

lemma read_nat_show_nat: "read_nat (show_nat n) = Some n"
  by (simp add: read_nat_def show_nat_ne foldl_show_nat)

subsection \<open>Paths through the handler\<close>

lemma serve_not_options:
  "req_method req \<noteq> ''OPTIONS'' \<Longrightarrow>
   serve req k g =
     (case try_block req k g of
        (Inr reply, calls) \<Rightarrow> (reply, calls)
      | (Inl error, calls) \<Rightarrow> (\<lparr>status = 500, body = Error_reply error\<rparr>, calls))"
  by (simp add: serve_def)

lemma serve_calls:
  "req_method req \<noteq> ''OPTIONS'' \<Longrightarrow> snd (serve req k g) = snd (try_block req k g)"
  by (cases "try_block req k g") (auto simp: serve_def split: sum.splits)

lemma try_block_no_key:
  "k = None \<or> k = Some [] \<Longrightarrow> snd (try_block req k g) = []"
  by (auto simp: try_block_def split: sum.splits)

lemma try_block_no_key_error:
  "k = None \<or> k = Some [] \<Longrightarrow> req_json req = Inr b \<Longrightarrow> b \<noteq> JNull \<Longrightarrow>
   try_block req k g = (Inl (Error ''LOVABLE_API_KEY is not configured''), [])"
  by (auto simp: try_block_def)

lemma try_block_calls:
  "req_json req = Inr b \<Longrightarrow> b \<noteq> JNull \<Longrightarrow> key \<noteq> [] \<Longrightarrow>
   snd (try_block req (Some key) g) = [gateway_call key b]"
  by (simp add: try_block_def Let_def split: sum.splits option.splits)

lemma try_block_status:
  "req_json req = Inr b \<Longrightarrow> b \<noteq> JNull \<Longrightarrow> key \<noteq> [] \<Longrightarrow>
   g (gateway_call key b) = Inr response \<Longrightarrow> \<not> response_ok response \<Longrightarrow>
   try_block req (Some key) g =
     (if gw_status response = 429
        then Inr \<lparr>status = 429, body = Error_reply (Error ''Rate limits exceeded. Please try again later.'')\<rparr>
      else if gw_status response = 402
        then Inr \<lparr>status = 402, body = Error_reply (Error ''Payment required. Please add credits to your workspace.'')\<rparr>
      else (case gw_text response of
              Inl e \<Rightarrow> Inl e
            | Inr errorText \<Rightarrow> Inl (Error (''AI gateway error: '' @ show_nat (gw_status response)))),
      [gateway_call key b])"
  by (simp add: try_block_def Let_def split: sum.splits)

lemma serve_status:
  assumes "req_method req \<noteq> ''OPTIONS''"
    and "req_json req = Inr b" and "b \<noteq> JNull"
    and "key \<noteq> []"
    and "gateway (gateway_call key b) = Inr response"
    and "\<not> response_ok response"
  shows "serve req (Some key) gateway =
           (if gw_status response = 429
              then \<lparr>status = 429, body = Error_reply (Error ''Rate limits exceeded. Please try again later.'')\<rparr>
            else if gw_status response = 402
              then \<lparr>status = 402, body = Error_reply (Error ''Payment required. Please add credits to your workspace.'')\<rparr>
            else (case gw_text response of
                    Inl e \<Rightarrow> \<lparr>status = 500, body = Error_reply e\<rparr>
                  | Inr errorText \<Rightarrow>
                      \<lparr>status = 500,
                       body = Error_reply (Error (''AI gateway error: '' @ show_nat (gw_status response)))\<rparr>),
            [gateway_call key b])"
  using assms try_block_status[of req b key gateway response]
  by (simp add: serve_not_options split: sum.splits)

subsection \<open>Gateway status handling\<close>

text \<open>
  Claim C5, as stated, fails for a status other than 429 and 402: before it throws, the
  handler awaits the text of the reply, and when that read rejects, the error of the read
  is what the reply carries. The gateway status 503 is then answered with status 500 and a
  message that does not hold the status.
\<close>

theorem unreadable_reply_loses_status:
  "serve \<lparr>req_method = ''POST'', req_json = Inr (JObj [])\<rparr> (Some ''secret'')
      (\<lambda>c. Inr \<lparr>gw_status = 503, gw_text = Inl TypeError, gw_json = None\<rparr>)
   = (\<lparr>status = 500, body = Error_reply TypeError\<rparr>, [gateway_call ''secret'' (JObj [])])"
  using serve_status
      [of "\<lparr>req_method = ''POST'', req_json = Inr (JObj [])\<rparr>" "JObj []" "''secret''"
          "\<lambda>c. Inr \<lparr>gw_status = 503, gw_text = Inl TypeError, gw_json = None\<rparr>"
          "\<lparr>gw_status = 503, gw_text = Inl TypeError, gw_json = None\<rparr>"]
  by (simp add: response_ok_def)

text \<open>
  Claim C5, amended. A request that reaches the gateway (not a preflight, a decoded body, a
  credential) and gets a reply outside 200..299 is answered as follows, after exactly one
  \<open>fetch\<close> call. Gateway status 429 gives reply status 429 with the rate-limit message
  and 402 gives 402 with the payment message, whether or not the text of the reply can be
  read. Every other status gives reply status 500: with the message \<open>AI gateway error: \<close>
  followed by the decimal text of the gateway status, from which the status is read back,
  when the text of the reply can be read; with the error of the read when it cannot.
\<close>

theorem gateway_status_classified:
  assumes "req_method req \<noteq> ''OPTIONS''"
    and "req_json req = Inr b" and "b \<noteq> JNull"
    and "key \<noteq> []"
    and "gateway (gateway_call key b) = Inr response"
    and "\<not> response_ok response"
  shows "serve req (Some key) gateway =
           (if gw_status response = 429
              then \<lparr>status = 429, body = Error_reply (Error ''Rate limits exceeded. Please try again later.'')\<rparr>
            else if gw_status response = 402
              then \<lparr>status = 402, body = Error_reply (Error ''Payment required. Please add credits to your workspace.'')\<rparr>
            else (case gw_text response of
                    Inl e \<Rightarrow> \<lparr>status = 500, body = Error_reply e\<rparr>
                  | Inr errorText \<Rightarrow>
                      \<lparr>status = 500,
                       body = Error_reply (Error (''AI gateway error: '' @ show_nat (gw_status response)))\<rparr>),
            [gateway_call key b])
         \<and> read_nat (show_nat (gw_status response)) = Some (gw_status response)"
  using serve_status[OF assms(1-4) _ assms(6), of gateway] assms(5)
  by (simp add: read_nat_show_nat)

theorem gateway_status_classified_witness:
  "serve \<lparr>req_method = ''POST'', req_json = Inr (JObj [])\<rparr> (Some ''secret'')
      (\<lambda>c. Inr \<lparr>gw_status = 503, gw_text = Inr ''unavailable'', gw_json = None\<rparr>)
   = (\<lparr>status = 500, body = Error_reply (Error ''AI gateway error: 503'')\<rparr>,
      [gateway_call ''secret'' (JObj [])]) \<and>
    serve \<lparr>req_method = ''POST'', req_json = Inr (JObj [])\<rparr> (Some ''secret'')
      (\<lambda>c. Inr \<lparr>gw_status = 429, gw_text = Inl TypeError, gw_json = None\<rparr>)
   = (\<lparr>status = 429, body = Error_reply (Error ''Rate limits exceeded. Please try again later.'')\<rparr>,
      [gateway_call ''secret'' (JObj [])])"
proof -
  have s: "show_nat 503 = ''503''" by code_simp
  show ?thesis
    using gateway_status_classified
      [of "\<lparr>req_method = ''POST'', req_json = Inr (JObj [])\<rparr>" "JObj []" "''secret''"
          "\<lambda>c. Inr \<lparr>gw_status = 503, gw_text = Inr ''unavailable'', gw_json = None\<rparr>"
          "\<lparr>gw_status = 503, gw_text = Inr ''unavailable'', gw_json = None\<rparr>"]
      gateway_status_classified
      [of "\<lparr>req_method = ''POST'', req_json = Inr (JObj [])\<rparr>" "JObj []" "''secret''"
          "\<lambda>c. Inr \<lparr>gw_status = 429, gw_text = Inl TypeError, gw_json = None\<rparr>"
          "\<lparr>gw_status = 429, gw_text = Inl TypeError, gw_json = None\<rparr>"]
    by (simp add: response_ok_def s)
qed

subsection \<open>The credential check\<close>

text \<open>
  Claim C6. When \<open>LOVABLE_API_KEY\<close> is unset (or set to the empty string, which the
  test \<open>!LOVABLE_API_KEY\<close> treats alike), the handler issues no \<open>fetch\<close> call, whatever
  the request and the gateway; and a request that is not a preflight and whose body
  decodes is answered with status 500 and the message \<open>LOVABLE_API_KEY is not configured\<close>.
\<close>

theorem missing_credential_no_fetch:
  assumes "LOVABLE_API_KEY = None \<or> LOVABLE_API_KEY = Some []"
  shows "snd (serve req LOVABLE_API_KEY gateway) = [] \<and>
         (req_method req \<noteq> ''OPTIONS'' \<and> req_json req = Inr b \<and> b \<noteq> JNull \<longrightarrow>
            fst (serve req LOVABLE_API_KEY gateway) =
              \<lparr>status = 500, body = Error_reply (Error ''LOVABLE_API_KEY is not configured'')\<rparr>)"
proof
  show "snd (serve req LOVABLE_API_KEY gateway) = []"
    using try_block_no_key[OF assms, of req gateway]
    by (cases "try_block req LOVABLE_API_KEY gateway") (auto simp: serve_def split: sum.splits)
  show "req_method req \<noteq> ''OPTIONS'' \<and> req_json req = Inr b \<and> b \<noteq> JNull \<longrightarrow>
        fst (serve req LOVABLE_API_KEY gateway) =
          \<lparr>status = 500, body = Error_reply (Error ''LOVABLE_API_KEY is not configured'')\<rparr>"
    using try_block_no_key_error[OF assms] by (auto simp: serve_not_options)
qed

theorem missing_credential_no_fetch_witness:
  "serve \<lparr>req_method = ''POST'', req_json = Inr (JObj [(''cropType'', JStr ''Banane'')])\<rparr> None
     (\<lambda>c. Inr \<lparr>gw_status = 200, gw_text = Inr [], gw_json = None\<rparr>)
   = (\<lparr>status = 500, body = Error_reply (Error ''LOVABLE_API_KEY is not configured'')\<rparr>, [])"
  using missing_credential_no_fetch
    [of None "\<lparr>req_method = ''POST'', req_json = Inr (JObj [(''cropType'', JStr ''Banane'')])\<rparr>"
        "\<lambda>c. Inr \<lparr>gw_status = 200, gw_text = Inr [], gw_json = None\<rparr>"
        "JObj [(''cropType'', JStr ''Banane'')]"]
  by (simp add: prod_eq_iff)

subsection \<open>The prompts\<close>

text \<open>
  Claim C7. Take any two requests that reach the gateway, with any credentials and any
  gateways. Each issues one \<open>fetch\<close> call whose payload holds a system prompt and a user
  prompt. The system prompt is the same text \<open>systemPrompt\<close> in both, whatever the
  request bodies are; and when the two bodies are equal the user prompts are equal too.
  The templates interpolate the seven request fields and nothing else.
\<close>

theorem prompts_deterministic:
  assumes "req_method req \<noteq> ''OPTIONS''" and "req_method req' \<noteq> ''OPTIONS''"
    and "req_json req = Inr b" and "req_json req' = Inr b'"
    and "b \<noteq> JNull" and "b' \<noteq> JNull"
    and "key \<noteq> []" and "key' \<noteq> []"
  shows "\<exists>usr usr'.
           map payload (snd (serve req (Some key) gateway)) = [request_payload systemPrompt usr] \<and>
           map payload (snd (serve req' (Some key') gateway')) = [request_payload systemPrompt usr'] \<and>
           (b = b' \<longrightarrow> usr = usr')"
proof -
  let ?u = "\<lambda>b. userPrompt (request_field b ''cropType'') (request_field b ''soilType'')
                 (request_field b ''humidity'') (request_field b ''moisture'')
                 (request_field b ''temperature'') (request_field b ''rainfall'')
                 (request_field b ''area'')"
  have 1: "map payload (snd (serve req (Some key) gateway)) = [request_payload systemPrompt (?u b)]"
    using assms by (simp add: serve_calls try_block_calls gateway_call_def)
  have 2: "map payload (snd (serve req' (Some key') gateway')) = [request_payload systemPrompt (?u b')]"
    using assms by (simp add: serve_calls try_block_calls gateway_call_def)
  have 3: "b = b' \<longrightarrow> ?u b = ?u b'" by simp
  show ?thesis
  proof (intro exI conjI)
    show "map payload (snd (serve req (Some key) gateway)) = [request_payload systemPrompt (?u b)]"
      by (rule 1)
    show "map payload (snd (serve req' (Some key') gateway')) = [request_payload systemPrompt (?u b')]"
      by (rule 2)
    show "b = b' \<longrightarrow> ?u b = ?u b'"
      by (rule 3)
  qed
qed

theorem prompts_deterministic_witness:
  "\<exists>usr usr'.
     map payload (snd (serve \<lparr>req_method = ''POST'', req_json = Inr (JObj [(''area'', JNum ''4'')])\<rparr>
        (Some ''key one'') (\<lambda>c. Inl TypeError))) = [request_payload systemPrompt usr] \<and>
     map payload (snd (serve \<lparr>req_method = ''PUT'', req_json = Inr (JObj [(''area'', JNum ''4'')])\<rparr>
        (Some ''key two'') (\<lambda>c. Inr \<lparr>gw_status = 429, gw_text = Inr [], gw_json = None\<rparr>)))
       = [request_payload systemPrompt usr'] \<and>
     usr = usr'"
  using prompts_deterministic
    [of "\<lparr>req_method = ''POST'', req_json = Inr (JObj [(''area'', JNum ''4'')])\<rparr>"
        "\<lparr>req_method = ''PUT'', req_json = Inr (JObj [(''area'', JNum ''4'')])\<rparr>"
        "JObj [(''area'', JNum ''4'')]" "JObj [(''area'', JNum ''4'')]" "''key one''" "''key two''"
        "\<lambda>c. Inl TypeError" "\<lambda>c. Inr \<lparr>gw_status = 429, gw_text = Inr [], gw_json = None\<rparr>"]
  by simp

section \<open>Properties of the settings provider\<close>

lemma map_of_spread: "map_of (spread t s) = map_of t ++ map_of (rev s)"
  unfolding spread_def
proof (induction s arbitrary: t)
  case Nil
  then show ?case by simp
next
  case (Cons x xs)
  obtain k v where x: "x = (k, v)" by (cases x)
  have "map_of (foldl (\<lambda>acc kv. AList.update (fst kv) (snd kv) acc) t (x # xs))
        = map_of (AList.update k v t) ++ map_of (rev xs)"
    using Cons.IH[of "AList.update k v t"] by (simp add: x)
  also have "\<dots> = map_of t ++ map_of (rev (x # xs))"
    by (simp add: x update_conv' map_add_upd_left fun_eq_iff map_add_def split: option.splits)
  finally show ?case .
qed

lemma keys_spread: "fst ` set (spread t s) = fst ` set t \<union> fst ` set s"
  unfolding spread_def
  by (induction s arbitrary: t) (auto simp: dom_update)

lemma JSON_parse_empty: "JSON_parse [] = None"
  by (simp add: JSON_parse_def skip_ws_def)

subsection \<open>Initial settings\<close>

text \<open>
  Claim C9. With no stored text, or a stored text that \<open>JSON.parse\<close> rejects, the
  initial settings are exactly \<open>defaultSettings\<close>. With a stored text that parses, a
  name is looked up in the stored value's own properties first and in the defaults
  otherwise (of two members with one name the later counts), and every default name is
  a name of the initial settings.
\<close>

theorem initial_settings_defaults:
  "initial_settings None = defaultSettings \<and>
   (JSON_parse text = None \<longrightarrow> initial_settings (Some text) = defaultSettings) \<and>
   (JSON_parse text = Some parsed \<longrightarrow>
      map_of (initial_settings (Some text)) =
        map_of defaultSettings ++ map_of (rev (own_props (Some parsed))) \<and>
      set (map fst defaultSettings) \<subseteq> set (map fst (initial_settings (Some text))))"
proof (intro conjI impI)
  show "initial_settings None = defaultSettings" by (simp add: initial_settings_def)
  show "initial_settings (Some text) = defaultSettings" if "JSON_parse text = None"
    using that by (simp add: initial_settings_def)
next
  assume p: "JSON_parse text = Some parsed"
  then have ne: "text \<noteq> []" using JSON_parse_empty by auto
  have eq: "initial_settings (Some text) = spread defaultSettings (own_props (Some parsed))"
    using p ne by (simp add: initial_settings_def)
  show "map_of (initial_settings (Some text)) =
        map_of defaultSettings ++ map_of (rev (own_props (Some parsed)))"
    by (simp add: eq map_of_spread)
  show "set (map fst defaultSettings) \<subseteq> set (map fst (initial_settings (Some text)))"
    by (simp add: eq keys_spread)
qed

theorem initial_settings_defaults_witness:
  \<open>map_of (initial_settings (Some ''{"locale":"fr-FR","sync":{"wifiOnly":true}}'')) ''locale''
     = Some (JStr ''fr-FR'') \<and>
   map_of (initial_settings (Some ''{"locale":"fr-FR","sync":{"wifiOnly":true}}'')) ''currency''
     = Some (JStr ''USD'') \<and>
   initial_settings (Some ''{"locale":'') = defaultSettings\<close>
proof -
  have p1: \<open>JSON_parse ''{"locale":"fr-FR","sync":{"wifiOnly":true}}'' =
      Some (JObj [(''locale'', JStr ''fr-FR''), (''sync'', JObj [(''wifiOnly'', JBool True)])])\<close>
    by code_simp
  have p2: \<open>JSON_parse ''{"locale":'' = None\<close> by code_simp
  show ?thesis
    using initial_settings_defaults[of \<open>''{"locale":"fr-FR","sync":{"wifiOnly":true}}''\<close>
        "JObj [(''locale'', JStr ''fr-FR''), (''sync'', JObj [(''wifiOnly'', JBool True)])]"]
      initial_settings_defaults[of \<open>''{"locale":''\<close> JNull]
    by (simp add: p1 p2 defaultSettings_def map_add_def)
qed

subsection \<open>Nested writes\<close>




section \<open>Properties of the prediction form\<close>

lemma missing_iff:
  "filter (\<lambda>field. form_field fd field \<in> {None, Some []}) requiredFields = [] \<longleftrightarrow>
   humidity fd \<noteq> [] \<and> moisture fd \<noteq> [] \<and> temperature fd \<noteq> [] \<and> rainfall fd \<noteq> [] \<and> area fd \<noteq> []"
  by (simp add: requiredFields_def form_field_def filter_empty_conv)

lemma resume_error_field:
  "get_prop data ''error'' = Inr (Some e) \<Longrightarrow> truthy (Some e) \<Longrightarrow>
   handlePredict_resume (Invoke_returns data None) st =
     st\<lparr>toasts := toasts st @ [Toast_error e], loading := False\<rparr>"
  by (simp add: handlePredict_resume_def)

lemma resume_success:
  "get_prop data ''error'' = Inr e \<Longrightarrow> \<not> truthy e \<Longrightarrow>
   handlePredict_resume (Invoke_returns data None) st =
     st\<lparr>prediction := data,
        toasts := toasts st @ [Toast_success ''Yield prediction generated successfully!''],
        loading := False\<rparr>"
  by (simp add: handlePredict_resume_def)

lemma resume_loading: "loading (handlePredict_resume r st) = False"
  by (simp add: handlePredict_resume_def Let_def)

subsection \<open>Validation\<close>

text \<open>
  Claim C3, as stated, fails: the validation tests that a field is not empty, not that it
  is a number. A form whose humidity is the text \<open>abc\<close>, which \<open>parseFloat\<close> turns into
  NaN, passes the validation and the call is issued with NaN for the humidity.
\<close>

theorem non_numeric_field_accepted:
  "parseFloat ''abc'' = NaN \<and>
   handlePredict_dispatch
     \<lparr>cropType = ''Banane'', soilType = ''Argileux'', humidity = ''abc'', moisture = ''85'',
      temperature = ''30'', rainfall = ''250'', area = ''4''\<rparr>
     \<lparr>loading = False, prediction = None, toasts = []\<rparr>
   = (\<lparr>loading = True, prediction = None, toasts = []\<rparr>,
      Some \<lparr>function_name = ''predict-yield'',
            invoke_body =
              \<lparr>body_cropType = ''Banane'', body_soilType = ''Argileux'',
               body_humidity = NaN, body_moisture = Finite ''85'',
               body_temperature = Finite ''30'', body_rainfall = Finite ''250'',
               body_area = Finite ''4''\<rparr>\<rparr>)"
  by code_simp

text \<open>
  Claim C3, amended. The call is issued if and only if all seven fields are non-empty.
  The crop and soil types are tested first: when one of them is empty the only effect is
  the toast asking for them, whatever the other fields hold. Otherwise, when one of the
  five environmental fields is empty, the only effect is the toast asking for them. In
  both cases no call is issued. When the call is issued, \<open>loading\<close> is set, the
  prediction is cleared, and the body carries the two types and \<open>parseFloat\<close> of the five
  other fields.
\<close>

theorem validation_tests_emptiness:
  "(snd (handlePredict_dispatch fd st) \<noteq> None \<longleftrightarrow>
      cropType fd \<noteq> [] \<and> soilType fd \<noteq> [] \<and> humidity fd \<noteq> [] \<and> moisture fd \<noteq> [] \<and>
      temperature fd \<noteq> [] \<and> rainfall fd \<noteq> [] \<and> area fd \<noteq> []) \<and>
   (cropType fd = [] \<or> soilType fd = [] \<longrightarrow>
      handlePredict_dispatch fd st =
        (st\<lparr>toasts := toasts st @ [Toast_error (JStr ''Please select crop type and soil type'')]\<rparr>, None)) \<and>
   (cropType fd \<noteq> [] \<and> soilType fd \<noteq> [] \<and>
    (humidity fd = [] \<or> moisture fd = [] \<or> temperature fd = [] \<or> rainfall fd = [] \<or> area fd = []) \<longrightarrow>
      handlePredict_dispatch fd st =
        (st\<lparr>toasts := toasts st @ [Toast_error (JStr ''Please fill in all environmental factors'')]\<rparr>, None)) \<and>
   (snd (handlePredict_dispatch fd st) \<noteq> None \<longrightarrow>
      handlePredict_dispatch fd st =
        (st\<lparr>loading := True, prediction := None\<rparr>,
         Some \<lparr>function_name = ''predict-yield'',
               invoke_body =
                 \<lparr>body_cropType = cropType fd, body_soilType = soilType fd,
                  body_humidity = parseFloat (humidity fd), body_moisture = parseFloat (moisture fd),
                  body_temperature = parseFloat (temperature fd),
                  body_rainfall = parseFloat (rainfall fd), body_area = parseFloat (area fd)\<rparr>\<rparr>))"
  using missing_iff[of fd]
  by (auto simp: handlePredict_dispatch_def Let_def)

theorem validation_tests_emptiness_witness:
  "handlePredict_dispatch
     \<lparr>cropType = ''Banane'', soilType = ''Argileux'', humidity = ''90'', moisture = [],
      temperature = ''30'', rainfall = ''250'', area = ''4''\<rparr>
     \<lparr>loading = False, prediction = None, toasts = []\<rparr>
   = (\<lparr>loading = False, prediction = None,
       toasts = [Toast_error (JStr ''Please fill in all environmental factors'')]\<rparr>, None)"
  using validation_tests_emptiness
    [of "\<lparr>cropType = ''Banane'', soilType = ''Argileux'', humidity = ''90'', moisture = [],
          temperature = ''30'', rainfall = ''250'', area = ''4''\<rparr>"
        "\<lparr>loading = False, prediction = None, toasts = []\<rparr>"]
  by simp

subsection \<open>A reply that carries an error field\<close>

text \<open>
  Claim C10, as stated, fails: the test \<open>if (data.error)\<close> is on the value of the field.
  A reply without transport error whose body has an \<open>error\<close> field holding the empty
  string is stored as the prediction and announced as a success.
\<close>

theorem empty_error_field_is_success:
  "get_prop (Some (JObj [(''error'', JStr [])])) ''error'' = Inr (Some (JStr [])) \<and>
   handlePredict_resume (Invoke_returns (Some (JObj [(''error'', JStr [])])) None)
     \<lparr>loading = True, prediction = None, toasts = []\<rparr>
   = \<lparr>loading = False, prediction = Some (JObj [(''error'', JStr [])]),
      toasts = [Toast_success ''Yield prediction generated successfully!'']\<rparr>"
  by (simp add: handlePredict_resume_def)

text \<open>
  Claim C10, amended. After an accepted dispatch, a reply without transport error whose
  body has an \<open>error\<close> field with a truthy value (a non-empty message, in particular)
  leaves the prediction cleared, shows that value in an error toast and no success
  toast, and resets \<open>loading\<close>.
\<close>

theorem truthy_error_field_is_failure:
  assumes "snd (handlePredict_dispatch fd st) \<noteq> None"
    and "get_prop data ''error'' = Inr (Some e)" and "truthy (Some e)"
  shows "handlePredict_resume (Invoke_returns data None) (fst (handlePredict_dispatch fd st)) =
           st\<lparr>loading := False, prediction := None, toasts := toasts st @ [Toast_error e]\<rparr>"
proof -
  have "fst (handlePredict_dispatch fd st) = st\<lparr>loading := True, prediction := None\<rparr>"
    using assms(1) by (auto simp: handlePredict_dispatch_def Let_def split: if_splits)
  then show ?thesis
    using assms(2,3) by (simp add: resume_error_field)
qed

theorem truthy_error_field_is_failure_witness:
  "handlePredict_resume
     (Invoke_returns (Some (JObj [(''error'', JStr ''Failed to parse prediction data'')])) None)
     (fst (handlePredict_dispatch
        \<lparr>cropType = ''Banane'', soilType = ''Argileux'', humidity = ''90'', moisture = ''85'',
         temperature = ''30'', rainfall = ''250'', area = ''4''\<rparr>
        \<lparr>loading = False, prediction = Some (JObj []), toasts = []\<rparr>))
   = \<lparr>loading = False, prediction = None,
      toasts = [Toast_error (JStr ''Failed to parse prediction data'')]\<rparr>"
proof -
  have d: "snd (handlePredict_dispatch
        \<lparr>cropType = ''Banane'', soilType = ''Argileux'', humidity = ''90'', moisture = ''85'',
         temperature = ''30'', rainfall = ''250'', area = ''4''\<rparr>
        \<lparr>loading = False, prediction = Some (JObj []), toasts = []\<rparr>) \<noteq> None"
    by code_simp
  show ?thesis
    using truthy_error_field_is_failure[OF d,
        of "Some (JObj [(''error'', JStr ''Failed to parse prediction data'')])"
           "JStr ''Failed to parse prediction data''"]
    by simp
qed

subsection \<open>Calls in flight\<close>

lemma dispatch_cases:
  "handlePredict_dispatch fd st = (st', None) \<Longrightarrow> loading st' = loading st"
  "handlePredict_dispatch fd st = (st', Some call) \<Longrightarrow> loading st'"
  by (auto simp: handlePredict_dispatch_def Let_def split: if_splits)

lemma onClick_ok: "client_ok c \<Longrightarrow> client_ok (onClick fd c)"
proof -
  assume ok: "client_ok c"
  show ?thesis
  proof (cases "button_disabled (ui c)")
    case True
    then show ?thesis using ok by (simp add: onClick_def)
  next
    case False
    then have idle: "\<not> loading (ui c)" "in_flight c = []"
      using ok by (auto simp: button_disabled_def client_ok_def)
    obtain st r where d: "handlePredict_dispatch fd (ui c) = (st, r)"
      by (cases "handlePredict_dispatch fd (ui c)")
    show ?thesis
    proof (cases r)
      case None
      with d dispatch_cases(1)[of fd "ui c" st] idle False show ?thesis
        by (simp add: onClick_def client_ok_def)
    next
      case (Some call)
      with d dispatch_cases(2)[of fd "ui c" st call] idle False show ?thesis
        by (simp add: onClick_def client_ok_def)
    qed
  qed
qed

lemma call_resolves_ok: "client_ok c \<Longrightarrow> call_resolves i r c = Some c' \<Longrightarrow> client_ok c'"
  by (auto simp: call_resolves_def client_ok_def resume_loading split: if_splits)

lemma client_step_ok: "client_ok c \<Longrightarrow> client_step e c = Some c' \<Longrightarrow> client_ok c'"
  by (cases e) (auto simp: onClick_ok call_resolves_ok)

lemma client_run_ok: "client_ok c \<Longrightarrow> client_run es c = Some c' \<Longrightarrow> client_ok c'"
proof (induction es arbitrary: c)
  case Nil
  then show ?case by simp
next
  case (Cons e es)
  from Cons.prems(2) obtain c1 where s: "client_step e c = Some c1" and r: "client_run es c1 = Some c'"
    by (auto split: option.splits)
  from Cons.IH[OF client_step_ok[OF Cons.prems(1) s] r] show ?case .
qed

lemma initial_ok: "client_ok initial_client"
  by (simp add: client_ok_def initial_client_def)

text \<open>
  Claim C2, as stated, fails in its second half: no dispatch is tagged. The user clicks
  with a form, the call resolves, and the user clicks again with the same form. The
  second dispatch issues the very call the first one issued, a function name and a body,
  and leaves the same \<open>loading\<close> and \<open>prediction\<close>: nothing sets the two dispatches
  apart, so there is no identifier by which a result could be matched or discarded.
\<close>

theorem dispatches_carry_no_identifier:
  "client_run
     [Click \<lparr>cropType = ''Banane'', soilType = ''Argileux'', humidity = ''90'', moisture = ''85'',
             temperature = ''30'', rainfall = ''250'', area = ''4''\<rparr>]
     initial_client
   = Some \<lparr>ui = \<lparr>loading = True, prediction = None, toasts = []\<rparr>,
           in_flight =
             [\<lparr>function_name = ''predict-yield'',
               invoke_body =
                 \<lparr>body_cropType = ''Banane'', body_soilType = ''Argileux'',
                  body_humidity = Finite ''90'', body_moisture = Finite ''85'',
                  body_temperature = Finite ''30'', body_rainfall = Finite ''250'',
                  body_area = Finite ''4''\<rparr>\<rparr>]\<rparr> \<and>
   client_run
     [Click \<lparr>cropType = ''Banane'', soilType = ''Argileux'', humidity = ''90'', moisture = ''85'',
             temperature = ''30'', rainfall = ''250'', area = ''4''\<rparr>,
      Resolves 0 (Invoke_returns (Some (JObj [(''qualityGrade'', JStr ''Bonne'')])) None),
      Click \<lparr>cropType = ''Banane'', soilType = ''Argileux'', humidity = ''90'', moisture = ''85'',
             temperature = ''30'', rainfall = ''250'', area = ''4''\<rparr>]
     initial_client
   = Some \<lparr>ui = \<lparr>loading = True, prediction = None,
                 toasts = [Toast_success ''Yield prediction generated successfully!'']\<rparr>,
           in_flight =
             [\<lparr>function_name = ''predict-yield'',
               invoke_body =
                 \<lparr>body_cropType = ''Banane'', body_soilType = ''Argileux'',
                  body_humidity = Finite ''90'', body_moisture = Finite ''85'',
                  body_temperature = Finite ''30'', body_rainfall = Finite ''250'',
                  body_area = Finite ''4''\<rparr>\<rparr>]\<rparr>"
  by code_simp

text \<open>
  Claim C2, amended. What the component has instead of identifiers is the button. After
  any sequence of clicks and resolutions from the initial state, at most one call is in
  flight, and one is in flight exactly when \<open>loading\<close> is set. While it is, a click does
  nothing, so a dispatch B is never issued before the call of an earlier dispatch A has
  resolved, and A's call cannot resolve after B's. The call that resolves is the only one
  in flight, the latest dispatched, and its outcome is what the state then shows.
\<close>

theorem one_call_in_flight:
  assumes "client_run es initial_client = Some c"
  shows "length (in_flight c) \<le> 1 \<and>
         (loading (ui c) \<longleftrightarrow> in_flight c \<noteq> []) \<and>
         (in_flight c \<noteq> [] \<longrightarrow> onClick fd c = c) \<and>
         (\<forall>i r c'. call_resolves i r c = Some c' \<longrightarrow>
            i = 0 \<and> in_flight c' = [] \<and> ui c' = handlePredict_resume r (ui c))"
proof -
  from client_run_ok[OF initial_ok assms] have ok: "client_ok c" .
  then have 1: "length (in_flight c) \<le> 1" and 2: "loading (ui c) \<longleftrightarrow> in_flight c \<noteq> []"
    by (simp_all add: client_ok_def)
  have 3: "in_flight c \<noteq> [] \<longrightarrow> onClick fd c = c"
    using 2 by (simp add: onClick_def button_disabled_def)
  have 4: "\<forall>i r c'. call_resolves i r c = Some c' \<longrightarrow>
            i = 0 \<and> in_flight c' = [] \<and> ui c' = handlePredict_resume r (ui c)"
    using 1 by (auto simp: call_resolves_def split: if_splits)
  from 1 2 3 4 show ?thesis by blast
qed

theorem one_call_in_flight_witness:
  "onClick \<lparr>cropType = ''Igname'', soilType = ''Sableux'', humidity = ''70'', moisture = ''60'',
            temperature = ''28'', rainfall = ''120'', area = ''2''\<rparr>
     \<lparr>ui = \<lparr>loading = True, prediction = None, toasts = []\<rparr>,
      in_flight =
        [\<lparr>function_name = ''predict-yield'',
          invoke_body =
            \<lparr>body_cropType = ''Banane'', body_soilType = ''Argileux'',
             body_humidity = Finite ''90'', body_moisture = Finite ''85'',
             body_temperature = Finite ''30'', body_rainfall = Finite ''250'',
             body_area = Finite ''4''\<rparr>\<rparr>]\<rparr>
   = \<lparr>ui = \<lparr>loading = True, prediction = None, toasts = []\<rparr>,
      in_flight =
        [\<lparr>function_name = ''predict-yield'',
          invoke_body =
            \<lparr>body_cropType = ''Banane'', body_soilType = ''Argileux'',
             body_humidity = Finite ''90'', body_moisture = Finite ''85'',
             body_temperature = Finite ''30'', body_rainfall = Finite ''250'',
             body_area = Finite ''4''\<rparr>\<rparr>]\<rparr>"
proof -
  have run: "client_run
     [Click \<lparr>cropType = ''Banane'', soilType = ''Argileux'', humidity = ''90'', moisture = ''85'',
             temperature = ''30'', rainfall = ''250'', area = ''4''\<rparr>]
     initial_client
   = Some \<lparr>ui = \<lparr>loading = True, prediction = None, toasts = []\<rparr>,
           in_flight =
             [\<lparr>function_name = ''predict-yield'',
               invoke_body =
                 \<lparr>body_cropType = ''Banane'', body_soilType = ''Argileux'',
                  body_humidity = Finite ''90'', body_moisture = Finite ''85'',
                  body_temperature = Finite ''30'', body_rainfall = Finite ''250'',
                  body_area = Finite ''4''\<rparr>\<rparr>]\<rparr>"
    by code_simp
  show ?thesis
    using one_call_in_flight[OF run,
        of "\<lparr>cropType = ''Igname'', soilType = ''Sableux'', humidity = ''70'', moisture = ''60'',
             temperature = ''28'', rainfall = ''120'', area = ''2''\<rparr>"]
    by simp
qed

section \<open>Properties of the response normalizer\<close>

lemma match_braces_wrapped:
  assumes "CHR ''{'' \<notin> set pre" and "CHR ''}'' \<notin> set post"
  shows "match_braces (pre @ CHR ''{'' # mid @ CHR ''}'' # post) = Some (CHR ''{'' # mid @ [CHR ''}''])"
proof -
  have 1: "dropWhile (\<lambda>c. c \<noteq> CHR ''{'') (pre @ CHR ''{'' # mid @ CHR ''}'' # post)
           = CHR ''{'' # mid @ CHR ''}'' # post"
    using assms(1) by (subst dropWhile_append2) auto
  have 2: "dropWhile (\<lambda>c. c \<noteq> CHR ''}'') (rev post @ CHR ''}'' # rev mid) = CHR ''}'' # rev mid"
  proof -
    have "dropWhile (\<lambda>c. c \<noteq> CHR ''}'') (rev post @ CHR ''}'' # rev mid)
          = dropWhile (\<lambda>c. c \<noteq> CHR ''}'') (CHR ''}'' # rev mid)"
      using assms(2) by (subst dropWhile_append2) auto
    then show ?thesis by simp
  qed
  show ?thesis
    unfolding match_braces_def 1 by (simp add: 2)
qed

lemma stringify_object_shape:
  "JSON_stringify (JObj members) = CHR ''{'' # stringify_members members @ [CHR ''}'']"
  by simp

lemma match_braces_fenced:
  assumes "CHR ''{'' \<notin> set preamble" and "CHR ''}'' \<notin> set trailing"
  shows "match_braces (fenced_reply preamble (JSON_stringify (JObj members)) trailing)
         = Some (JSON_stringify (JObj members))"
proof -
  let ?pre = "preamble @ [CHR 0x60, CHR 0x60, CHR 0x60] @ ''json\<newline>''"
  let ?post = "''\<newline>'' @ [CHR 0x60, CHR 0x60, CHR 0x60] @ trailing"
  have a: "CHR ''{'' \<notin> set ?pre" using assms(1) by simp
  have b: "CHR ''}'' \<notin> set ?post" using assms(2) by simp
  have "fenced_reply preamble (JSON_stringify (JObj members)) trailing
        = ?pre @ CHR ''{'' # stringify_members members @ CHR ''}'' # ?post"
    by (simp add: fenced_reply_def)
  then show ?thesis
    using match_braces_wrapped[OF a b, of "stringify_members members"] by simp
qed

lemma try_block_ok:
  "req_json req = Inr b \<Longrightarrow> b \<noteq> JNull \<Longrightarrow> key \<noteq> [] \<Longrightarrow>
   g (gateway_call key b) = Inr response \<Longrightarrow> response_ok response \<Longrightarrow>
   gw_json response = Some data \<Longrightarrow> read_content data = Inr content \<Longrightarrow>
   try_block req (Some key) g =
     (case extract_prediction content of
        Inl e \<Rightarrow> Inl e
      | Inr parsed \<Rightarrow> Inr \<lparr>status = 200, body = Stringified parsed\<rparr>,
      [gateway_call key b])"
  by (simp add: try_block_def Let_def split: sum.splits)

lemma extract_prediction_text:
  "extract_prediction (Some (JStr content)) =
     (case JSON_parse (case match_braces content of Some jsonMatch \<Rightarrow> jsonMatch | None \<Rightarrow> content) of
        Some parsed \<Rightarrow> Inr parsed
      | None \<Rightarrow> Inl (Error ''Failed to parse prediction data''))"
  by (simp add: extract_prediction_def split: option.splits)

lemma serve_ok:
  assumes "req_method req \<noteq> ''OPTIONS''"
    and "req_json req = Inr b" and "b \<noteq> JNull"
    and "key \<noteq> []"
    and "gateway (gateway_call key b) = Inr response"
    and "response_ok response"
    and "gw_json response = Some data"
    and "read_content data = Inr (Some (JStr content))"
  shows "serve req (Some key) gateway =
           (case JSON_parse (case match_braces content of Some jsonMatch \<Rightarrow> jsonMatch | None \<Rightarrow> content) of
              Some parsed \<Rightarrow> \<lparr>status = 200, body = Stringified parsed\<rparr>
            | None \<Rightarrow> \<lparr>status = 500, body = Error_reply (Error ''Failed to parse prediction data'')\<rparr>,
            [gateway_call key b])"
  using assms try_block_ok[of req b key gateway response data "Some (JStr content)"]
  by (simp add: serve_not_options extract_prediction_text split: option.splits)

subsection \<open>Missing fields\<close>

text \<open>
  Claim C1, as stated, fails: nothing in the handler looks at the fields of the parsed
  value. A reply whose text is an object with the single field \<open>yieldPerHectare\<close> parses,
  has no \<open>totalProduction\<close> (nor five more of the required fields), and is forwarded
  with status 200.
\<close>

theorem incomplete_object_is_forwarded:
  \<open>JSON_parse ''{"yieldPerHectare":28.5}'' = Some (JObj [(''yieldPerHectare'', JNum ''28.5'')]) \<and>
   map_of [(''yieldPerHectare'', JNum ''28.5'')] ''totalProduction'' = None \<and>
   serve \<lparr>req_method = ''POST'', req_json = Inr (JObj [])\<rparr> (Some ''secret'')
     (\<lambda>c. Inr \<lparr>gw_status = 200, gw_text = Inr [],
                gw_json = Some (JObj [(''choices'',
                  JArr [JObj [(''message'', JObj [(''content'', JStr ''{"yieldPerHectare":28.5}'')])]])])\<rparr>)
   = (\<lparr>status = 200, body = Stringified (JObj [(''yieldPerHectare'', JNum ''28.5'')])\<rparr>,
      [gateway_call ''secret'' (JObj [])])\<close>
proof -
  have rc: \<open>read_content (JObj [(''choices'',
                  JArr [JObj [(''message'', JObj [(''content'', JStr ''{"yieldPerHectare":28.5}'')])]])])
            = Inr (Some (JStr ''{"yieldPerHectare":28.5}''))\<close>
    by code_simp
  have mb: \<open>match_braces ''{"yieldPerHectare":28.5}'' = Some ''{"yieldPerHectare":28.5}''\<close>
    by code_simp
  have jp: \<open>JSON_parse ''{"yieldPerHectare":28.5}'' = Some (JObj [(''yieldPerHectare'', JNum ''28.5'')])\<close>
    by code_simp
  have sv: \<open>serve \<lparr>req_method = ''POST'', req_json = Inr (JObj [])\<rparr> (Some ''secret'')
     (\<lambda>c. Inr \<lparr>gw_status = 200, gw_text = Inr [],
                gw_json = Some (JObj [(''choices'',
                  JArr [JObj [(''message'', JObj [(''content'', JStr ''{"yieldPerHectare":28.5}'')])]])])\<rparr>)
   = (\<lparr>status = 200, body = Stringified (JObj [(''yieldPerHectare'', JNum ''28.5'')])\<rparr>,
      [gateway_call ''secret'' (JObj [])])\<close>
    using serve_ok
      [of "\<lparr>req_method = ''POST'', req_json = Inr (JObj [])\<rparr>" "JObj []" "''secret''"
          \<open>\<lambda>c. Inr \<lparr>gw_status = 200, gw_text = Inr [],
                gw_json = Some (JObj [(''choices'',
                  JArr [JObj [(''message'', JObj [(''content'', JStr ''{"yieldPerHectare":28.5}'')])]])])\<rparr>\<close>
          \<open>\<lparr>gw_status = 200, gw_text = Inr [],
                gw_json = Some (JObj [(''choices'',
                  JArr [JObj [(''message'', JObj [(''content'', JStr ''{"yieldPerHectare":28.5}'')])]])])\<rparr>\<close>
          \<open>JObj [(''choices'',
                  JArr [JObj [(''message'', JObj [(''content'', JStr ''{"yieldPerHectare":28.5}'')])]])]\<close>
          \<open>''{"yieldPerHectare":28.5}''\<close>]
    by (simp add: response_ok_def rc mb jp)
  show ?thesis using jp sv by simp
qed

text \<open>
  Claim C1, amended. When the gateway's reply is in the range 200..299 and its content is
  a string, the handler parses the stretch from the first \<open>{\<close> to the last \<open>}\<close> of the
  content, or the whole content when there is no such stretch. If that parses, the reply
  has status 200 and carries the parsed value as it is, whatever fields it has. If it
  does not, the reply has status 500 and the fixed message
  \<open>Failed to parse prediction data\<close>, which does not carry the content.
\<close>

theorem parsed_reply_is_forwarded:
  assumes "req_method req \<noteq> ''OPTIONS''"
    and "req_json req = Inr b" and "b \<noteq> JNull"
    and "key \<noteq> []"
    and "gateway (gateway_call key b) = Inr response"
    and "response_ok response"
    and "gw_json response = Some data"
    and "read_content data = Inr (Some (JStr content))"
  shows "serve req (Some key) gateway =
           (case JSON_parse (case match_braces content of Some jsonMatch \<Rightarrow> jsonMatch | None \<Rightarrow> content) of
              Some parsed \<Rightarrow> \<lparr>status = 200, body = Stringified parsed\<rparr>
            | None \<Rightarrow> \<lparr>status = 500, body = Error_reply (Error ''Failed to parse prediction data'')\<rparr>,
            [gateway_call key b])"
  using assms by (rule serve_ok)

theorem parsed_reply_is_forwarded_witness:
  "serve \<lparr>req_method = ''POST'', req_json = Inr (JObj [])\<rparr> (Some ''secret'')
     (\<lambda>c. Inr \<lparr>gw_status = 200, gw_text = Inr [],
                gw_json = Some (JObj [(''choices'',
                  JArr [JObj [(''message'', JObj [(''content'', JStr ''Sorry, no estimate.'')])]])])\<rparr>)
   = (\<lparr>status = 500, body = Error_reply (Error ''Failed to parse prediction data'')\<rparr>,
      [gateway_call ''secret'' (JObj [])])"
proof -
  have rc: "read_content (JObj [(''choices'',
                  JArr [JObj [(''message'', JObj [(''content'', JStr ''Sorry, no estimate.'')])]])])
            = Inr (Some (JStr ''Sorry, no estimate.''))"
    by code_simp
  have mb: "match_braces ''Sorry, no estimate.'' = None" by code_simp
  have jp: "JSON_parse ''Sorry, no estimate.'' = None" by code_simp
  show ?thesis
    using parsed_reply_is_forwarded
      [of "\<lparr>req_method = ''POST'', req_json = Inr (JObj [])\<rparr>" "JObj []" "''secret''"
          "\<lambda>c. Inr \<lparr>gw_status = 200, gw_text = Inr [],
                gw_json = Some (JObj [(''choices'',
                  JArr [JObj [(''message'', JObj [(''content'', JStr ''Sorry, no estimate.'')])]])])\<rparr>"
          "\<lparr>gw_status = 200, gw_text = Inr [],
                gw_json = Some (JObj [(''choices'',
                  JArr [JObj [(''message'', JObj [(''content'', JStr ''Sorry, no estimate.'')])]])])\<rparr>"
          "JObj [(''choices'',
                  JArr [JObj [(''message'', JObj [(''content'', JStr ''Sorry, no estimate.'')])]])]"
          "''Sorry, no estimate.''"]
    by (simp add: response_ok_def rc mb jp)
qed

subsection \<open>The round trip through a fenced reply\<close>

text \<open>
  Claim C4, as stated, fails: the match starts at the first \<open>{\<close> of the whole reply. With
  a preamble that holds a brace, the matched stretch starts inside the preamble, is no
  JSON text, and the normalizer fails although the fenced block holds the well-formed
  result of the specification's scenario.
\<close>

theorem brace_in_preamble_breaks_round_trip:
  "wf_json scenario_result \<and>
   extract_prediction
     (Some (JStr (fenced_reply ''Estimate {Banane}: '' (JSON_stringify scenario_result) [])))
   = Inl (Error ''Failed to parse prediction data'')"
  by code_simp

text \<open>
  Claim C4, amended. For every well-formed object (a PredictionResult in particular), a
  preamble without \<open>{\<close> and a trailing text without \<open>}\<close>: the normalizer, given the
  preamble, the printed object inside a \<open>json\<close> fence and the trailing text, gives back
  the object.
\<close>

theorem fenced_round_trip:
  assumes "wf_json (JObj members)"
    and "CHR ''{'' \<notin> set preamble" and "CHR ''}'' \<notin> set trailing"
  shows "extract_prediction
           (Some (JStr (fenced_reply preamble (JSON_stringify (JObj members)) trailing)))
         = Inr (JObj members)"
  unfolding extract_prediction_def
  by (simp add: match_braces_fenced[OF assms(2,3)] JSON_roundtrip[OF assms(1)]
           del: JSON_stringify.simps)

theorem fenced_round_trip_witness:
  "extract_prediction
     (Some (JStr (fenced_reply ''Here is the prediction:\<newline>'' (JSON_stringify scenario_result)
                    ''\<newline>Let me know if you need anything else.'')))
   = Inr scenario_result"
proof -
  have w: "wf_json (JObj [(''yieldPerHectare'', JNum ''28.5''),
           (''totalProduction'', JNum ''114''),
           (''confidenceLevel'', JNum ''72''),
           (''qualityGrade'', JStr ''Bonne''),
           (''diseaseRisks'',
              JArr [JObj [(''name'', JStr ''Black Sigatoka''),
                          (''riskLevel'', JStr ''High''),
                          (''conditions'', JStr ''high humidity and rainfall''),
                          (''yieldImpact'', JStr ''-15%'')]]),
           (''keyFactors'', JArr [JStr ''high humidity'']),
           (''recommendations'', JArr [JStr ''improve drainage'']),
           (''analysis'', JStr ''...'')])"
    by code_simp
  have a: "CHR ''{'' \<notin> set ''Here is the prediction:\<newline>''" by simp
  have b: "CHR ''}'' \<notin> set ''\<newline>Let me know if you need anything else.''" by simp
  show ?thesis
    unfolding scenario_result_def by (rule fenced_round_trip[OF w a b])
qed

end
